theory Spec2Isabelle
  imports Complex_Main
begin

section \<open>JavaScript values used by the alert engine\<close>

text \<open>
  A JavaScript number is either a finite value, one of the two infinities, or NaN.
  Finite values are kept as exact rationals: rounding to binary64 and the sign of zero
  are not modelled. What the program observes of the special values is modelled:
  \<open>Number.isFinite\<close>, the truthiness test (\<open>0\<close> and \<open>NaN\<close> are falsy), and the
  comparisons, which are false as soon as one side is NaN.
\<close>

datatype jsnum = Finite rat | PInf | NInf | NaN

fun isFinite :: "jsnum \<Rightarrow> bool" where
  "isFinite (Finite r) = True"
| "isFinite PInf = False"
| "isFinite NInf = False"
| "isFinite NaN = False"

fun truthy :: "jsnum \<Rightarrow> bool" where
  "truthy (Finite r) = (r \<noteq> 0)"
| "truthy PInf = True"
| "truthy NInf = True"
| "truthy NaN = False"

fun js_le :: "jsnum \<Rightarrow> jsnum \<Rightarrow> bool" where
  "js_le NaN y = False"
| "js_le x NaN = False"
| "js_le NInf y = True"
| "js_le x PInf = True"
| "js_le PInf y = False"
| "js_le x NInf = False"
| "js_le (Finite a) (Finite b) = (a \<le> b)"

fun js_lt :: "jsnum \<Rightarrow> jsnum \<Rightarrow> bool" where
  "js_lt NaN y = False"
| "js_lt x NaN = False"
| "js_lt PInf y = False"
| "js_lt x NInf = False"
| "js_lt NInf y = True"
| "js_lt x PInf = True"
| "js_lt (Finite a) (Finite b) = (a < b)"

definition js_ge :: "jsnum \<Rightarrow> jsnum \<Rightarrow> bool" where
  "js_ge x y = js_le y x"

definition js_gt :: "jsnum \<Rightarrow> jsnum \<Rightarrow> bool" where
  "js_gt x y = js_lt y x"

fun js_neg :: "jsnum \<Rightarrow> jsnum" where
  "js_neg (Finite r) = Finite (- r)"
| "js_neg PInf = NInf"
| "js_neg NInf = PInf"
| "js_neg NaN = NaN"

fun js_add :: "jsnum \<Rightarrow> jsnum \<Rightarrow> jsnum" where
  "js_add NaN y = NaN"
| "js_add x NaN = NaN"
| "js_add PInf NInf = NaN"
| "js_add NInf PInf = NaN"
| "js_add PInf y = PInf"
| "js_add NInf y = NInf"
| "js_add x PInf = PInf"
| "js_add x NInf = NInf"
| "js_add (Finite a) (Finite b) = Finite (a + b)"

definition js_sub :: "jsnum \<Rightarrow> jsnum \<Rightarrow> jsnum" where
  "js_sub x y = js_add x (js_neg y)"

text \<open>The sign of a number other than NaN: \<open>-1\<close>, \<open>0\<close> or \<open>1\<close>.\<close>

fun js_sign :: "jsnum \<Rightarrow> int" where
  "js_sign (Finite r) = (if r < 0 then - 1 else if r = 0 then 0 else 1)"
| "js_sign PInf = 1"
| "js_sign NInf = - 1"
| "js_sign NaN = 0"

definition signed_inf :: "int \<Rightarrow> jsnum" where
  "signed_inf s = (if s < 0 then NInf else PInf)"

fun js_mul :: "jsnum \<Rightarrow> jsnum \<Rightarrow> jsnum" where
  "js_mul NaN y = NaN"
| "js_mul x NaN = NaN"
| "js_mul (Finite a) (Finite b) = Finite (a * b)"
| "js_mul x y =
     (if js_sign x = 0 \<or> js_sign y = 0 then NaN else signed_inf (js_sign x * js_sign y))"

text \<open>
  Division. A zero divisor is taken as \<open>+0\<close>; the program divides only by a previous
  close it has tested to be greater than zero.
\<close>

fun js_div :: "jsnum \<Rightarrow> jsnum \<Rightarrow> jsnum" where
  "js_div NaN y = NaN"
| "js_div x NaN = NaN"
| "js_div (Finite a) (Finite b) =
     (if b = 0 then (if a = 0 then NaN else signed_inf (js_sign (Finite a)))
      else Finite (a / b))"
| "js_div (Finite a) y = Finite 0"
| "js_div x (Finite b) = signed_inf (js_sign x * (if b < 0 then - 1 else 1))"
| "js_div x y = NaN"

section \<open>Strings\<close>

text \<open>
  Strings are lists of 8-bit characters; the code units beyond ASCII are carried along
  unchanged (they are neither white space nor letters with an upper case here).
\<close>

definition is_space :: "char \<Rightarrow> bool" where
  "is_space c = (let n = (of_char c :: nat) in (9 \<le> n \<and> n \<le> 13) \<or> n = 32)"

definition trim :: "string \<Rightarrow> string" where
  "trim s = rev (dropWhile is_space (rev (dropWhile is_space s)))"

definition upper_char :: "char \<Rightarrow> char" where
  "upper_char c =
     (let n = (of_char c :: nat) in if 97 \<le> n \<and> n \<le> 122 then char_of (n - 32) else c)"

definition toUpperCase :: "string \<Rightarrow> string" where
  "toUpperCase s = map upper_char s"

text \<open>
  \<open>s.split(sep)\<close> for a one-character separator: the pieces between the
  separators, in order; the result is never empty (\<open>"".split(";")\<close> is \<open>[""]\<close>).
  The piece being read is accumulated in reverse.
\<close>

fun split_from :: "char \<Rightarrow> string \<Rightarrow> string \<Rightarrow> string list" where
  "split_from sep acc [] = [rev acc]"
| "split_from sep acc (c # cs) =
     (if c = sep then rev acc # split_from sep [] cs else split_from sep (c # acc) cs)"

definition split :: "char \<Rightarrow> string \<Rightarrow> string list" where
  "split sep s = split_from sep [] s"

text \<open>Reading index \<open>i\<close> of an array: \<open>undefined\<close> (None) out of range.\<close>

fun item :: "'a list \<Rightarrow> nat \<Rightarrow> 'a option" where
  "item [] i = None"
| "item (x # xs) 0 = Some x"
| "item (x # xs) (Suc i) = item xs i"

subsection \<open>\<open>Number(v)\<close> on a string or \<open>undefined\<close>\<close>

text \<open>
  The conversion follows the grammar of ECMAScript's StringToNumber: surrounding white
  space is dropped, the empty string is \<open>0\<close>, \<open>0x\<close>, \<open>0o\<close> and \<open>0b\<close> introduce
  unsigned integers in base 16, 8 and 2, a decimal literal has an optional sign, an
  integer part and/or a fraction, and an optional exponent; \<open>Infinity\<close> may carry a
  sign; everything else is NaN, as is \<open>undefined\<close>. A literal too large for a binary64
  becomes an infinity, which \<open>Number.isFinite\<close> observes.
\<close>

definition digit_val :: "char \<Rightarrow> nat" where
  "digit_val c =
     (let n = (of_char c :: nat) in
      if 48 \<le> n \<and> n \<le> 57 then n - 48
      else if 97 \<le> n \<and> n \<le> 102 then n - 87
      else if 65 \<le> n \<and> n \<le> 70 then n - 55
      else 16)"

definition is_digit :: "nat \<Rightarrow> char \<Rightarrow> bool" where
  "is_digit base c = (digit_val c < base)"

definition digits_val :: "nat \<Rightarrow> string \<Rightarrow> nat" where
  "digits_val base ds = foldl (\<lambda>a c. a * base + digit_val c) 0 ds"

definition overflow_bound :: rat where
  "overflow_bound = 2 ^ 1024 - 2 ^ 970"

definition to_double :: "rat \<Rightarrow> jsnum" where
  "to_double r =
     (if overflow_bound \<le> r then PInf
      else if r \<le> - overflow_bound then NInf
      else Finite r)"

definition exponent_part :: "string \<Rightarrow> int option" where
  "exponent_part s =
     (case s of
        [] \<Rightarrow> Some 0
      | c # r \<Rightarrow>
          if c = CHR ''e'' \<or> c = CHR ''E'' then
            (let (neg, ds) =
               (case r of
                  [] \<Rightarrow> (False, r)
                | d # r' \<Rightarrow>
                    if d = CHR ''-'' then (True, r')
                    else if d = CHR ''+'' then (False, r')
                    else (False, r))
             in if ds \<noteq> [] \<and> list_all (is_digit 10) ds
                then Some (if neg then - int (digits_val 10 ds) else int (digits_val 10 ds))
                else None)
          else None)"

definition pow10 :: "int \<Rightarrow> rat" where
  "pow10 e = (if 0 \<le> e then 10 ^ nat e else 1 / 10 ^ nat (- e))"

definition unsigned_decimal :: "string \<Rightarrow> rat option" where
  "unsigned_decimal s =
     (let ip = takeWhile (is_digit 10) s;
          r1 = dropWhile (is_digit 10) s;
          (fp, r2) =
            (case r1 of
               [] \<Rightarrow> ([], r1)
             | c # r \<Rightarrow>
                 if c = CHR ''.'' then (takeWhile (is_digit 10) r, dropWhile (is_digit 10) r)
                 else ([], r1))
      in if ip = [] \<and> fp = [] then None
         else (case exponent_part r2 of
                 None \<Rightarrow> None
               | Some e \<Rightarrow>
                   Some ((of_nat (digits_val 10 ip)
                          + of_nat (digits_val 10 fp) / 10 ^ length fp) * pow10 e)))"

definition radix_literal :: "string \<Rightarrow> nat option" where
  "radix_literal s =
     (case s of
        z # x # ds \<Rightarrow>
          if z \<noteq> CHR ''0'' then None
          else (let base =
                  (if x = CHR ''x'' \<or> x = CHR ''X'' then 16
                   else if x = CHR ''o'' \<or> x = CHR ''O'' then 8
                   else if x = CHR ''b'' \<or> x = CHR ''B'' then 2
                   else 0)
                in if base \<noteq> 0 \<and> ds \<noteq> [] \<and> list_all (is_digit base) ds
                   then Some (digits_val base ds) else None)
      | _ \<Rightarrow> None)"

definition StringToNumber :: "string \<Rightarrow> jsnum" where
  "StringToNumber s =
     (let t = trim s in
      if t = [] then Finite 0
      else (case radix_literal t of
              Some n \<Rightarrow> to_double (of_nat n)
            | None \<Rightarrow>
                (let (neg, u) =
                   (case t of
                      [] \<Rightarrow> (False, t)
                    | c # r \<Rightarrow>
                        if c = CHR ''-'' then (True, r)
                        else if c = CHR ''+'' then (False, r)
                        else (False, t))
                 in if u = ''Infinity'' then (if neg then NInf else PInf)
                    else (case unsigned_decimal u of
                            None \<Rightarrow> NaN
                          | Some r \<Rightarrow> to_double (if neg then - r else r)))))"

definition Number :: "string option \<Rightarrow> jsnum" where
  "Number v = (case v of None \<Rightarrow> NaN | Some s \<Rightarrow> StringToNumber s)"

section \<open>Rule parser\<close>

record Rules =
  below :: "jsnum option"
  above :: "jsnum option"

definition no_rules :: Rules where
  "no_rules = \<lparr>below = None, above = None\<rparr>"

text \<open>
  The body of the inner loop of \<open>parsePriceLevels\<close>: one \<open>key=value\<close> clause applied
  to the rule object under construction.
\<close>

definition kv_step :: "Rules \<Rightarrow> string \<Rightarrow> Rules" where
  "kv_step rules kv =
     (let kvs = map trim (split (CHR ''='') kv);
          k = item kvs 0;
          v = item kvs 1;
          num = Number v
      in if \<not> isFinite num then rules
         else (let rules1 = (if k = Some ''below'' then rules\<lparr>below := Some num\<rparr> else rules)
               in if k = Some ''above'' then rules1\<lparr>above := Some num\<rparr> else rules1))"

text \<open>
  The body of the outer loop: one \<open>;\<close>-separated chunk. A fresh rule object is built
  for the chunk and stored under the symbol, replacing what was there.
\<close>

definition chunk_step :: "(string \<rightharpoonup> Rules) \<Rightarrow> string \<Rightarrow> (string \<rightharpoonup> Rules)" where
  "chunk_step out chunk =
     (let part = trim chunk in
      if part = [] then out
      else (let parts = split (CHR '':'') part;
                symRaw = item parts 0;
                rulesRaw = item parts 1;
                symbol = toUpperCase (trim (case symRaw of None \<Rightarrow> [] | Some s \<Rightarrow> s))
            in case rulesRaw of
                 None \<Rightarrow> out
               | Some rr \<Rightarrow>
                   if symbol = [] \<or> rr = [] then out
                   else out(symbol \<mapsto> foldl kv_step no_rules (split (CHR '','') rr))))"

definition parsePriceLevels :: "string \<Rightarrow> (string \<rightharpoonup> Rules)" where
  "parsePriceLevels input =
     (if trim input = [] then Map.empty
      else foldl chunk_step Map.empty (split (CHR '';'') input))"

section \<open>Data model of the alert engine\<close>

text \<open>The persisted record of one symbol, \<open>AlertState\<close>: both fields are optional.\<close>

record AlertState =
  lastSentAt :: "(string \<rightharpoonup> int) option"
  lastCond :: "(string \<rightharpoonup> bool) option"

text \<open>
  A snapshot of the market-data provider. The fields \<open>p\<close>, \<open>c\<close> and \<open>t\<close> of a trade
  and of a bar are written \<open>trade_p\<close>, \<open>bar_c\<close>, \<open>trade_t\<close> and \<open>bar_t\<close>.
\<close>

record Trade =
  trade_p :: jsnum
  trade_t :: string

record Bar =
  bar_c :: jsnum
  bar_t :: string

record AlpacaSnapshot =
  latestTrade :: "Trade option"
  minuteBar :: "Bar option"
  dailyBar :: "Bar option"
  prevDailyBar :: "Bar option"

text \<open>
  The configuration values of \<open>Env\<close> that the alert engine reads; a binding that is
  not set is None. The key-value namespace \<open>STOCK_STATE\<close> is mutable and is kept in
  the world below.
\<close>

record Env =
  DISCORD_WEBHOOK_URL :: "string option"
  WATCHLIST :: "string option"
  PRICE_LEVELS :: "string option"
  PCT_THRESHOLD :: "string option"
  ALERT_COOLDOWN_MINUTES :: "string option"

text \<open>The options of an on-demand run; an absent \<open>force\<close> is \<open>False\<close>.\<close>

record Opts =
  force :: bool
  symbols :: "string list option"

text \<open>The entry of \<open>details\<close> for one symbol (type \<open>Detail\<close>), fields prefixed \<open>d_\<close>.\<close>

record Detail =
  d_symbol :: string
  d_sent :: "string list"
  d_currentPrice :: "jsnum option"
  d_prevClose :: "jsnum option"
  d_changePct :: "jsnum option"
  d_rules :: "Rules option"
  d_note :: "string option"

text \<open>The value returned by \<open>runAlertsOnce\<close>, fields prefixed \<open>r_\<close>.\<close>

record Summary =
  r_ok :: bool
  r_symbols :: nat
  r_sent :: nat
  r_details :: "Detail list"

text \<open>
  The world outside the function: the State Store (\<open>env.STOCK_STATE\<close>, JSON values
  by key), the notifications the webhook has accepted so far, as (symbol, condition key)
  in order of delivery, and the number of calls of \<open>tryAlert\<close> made so far. The message
  text is a presentation of symbol, key and prices and is not modelled.
\<close>

record World =
  store :: "string \<rightharpoonup> AlertState"
  outbox :: "(string \<times> string) list"
  ticks :: nat

text \<open>
  What the program cannot decide: the value \<open>Date.now()\<close> returns in the \<open>n\<close>-th call of
  \<open>tryAlert\<close>, and whether the webhook request made in that call succeeds (the fetch
  resolves with \<open>res.ok\<close>). Reads and writes of the State Store are taken to succeed,
  and the snapshot batch is the result of a successful fetch.
\<close>

record Oracle =
  now_at :: "nat \<Rightarrow> int"
  deliver_ok :: "nat \<Rightarrow> bool"

datatype error = MissingWebhook | WebhookFailed

section \<open>Notifier\<close>

definition sendDiscord :: "string option \<Rightarrow> bool \<Rightarrow> error + unit" where
  "sendDiscord webhookUrl res_ok =
     (case webhookUrl of
        None \<Rightarrow> Inl MissingWebhook
      | Some url \<Rightarrow>
          if url = [] \<or> trim url = [] then Inl MissingWebhook
          else if \<not> res_ok then Inl WebhookFailed
          else Inr ())"

section \<open>Alert evaluator\<close>

subsection \<open>Prices, percent change and the four conditions\<close>

definition currentPrice :: "AlpacaSnapshot \<Rightarrow> jsnum option" where
  "currentPrice snap =
     (case latestTrade snap of
        Some tr \<Rightarrow> Some (trade_p tr)
      | None \<Rightarrow> (case minuteBar snap of Some b \<Rightarrow> Some (bar_c b) | None \<Rightarrow> None))"

definition prevClose :: "AlpacaSnapshot \<Rightarrow> jsnum option" where
  "prevClose snap = (case prevDailyBar snap of Some b \<Rightarrow> Some (bar_c b) | None \<Rightarrow> None)"

definition changePct :: "jsnum \<Rightarrow> jsnum option \<Rightarrow> jsnum option" where
  "changePct price pc =
     (case pc of
        None \<Rightarrow> None
      | Some q \<Rightarrow>
          if truthy q \<and> js_gt q (Finite 0)
          then Some (js_mul (js_div (js_sub price q) q) (Finite 100))
          else None)"

definition condPriceBelow :: "Rules \<Rightarrow> jsnum \<Rightarrow> bool" where
  "condPriceBelow rules price =
     (case below rules of Some b \<Rightarrow> js_le price b | None \<Rightarrow> False)"

definition condPriceAbove :: "Rules \<Rightarrow> jsnum \<Rightarrow> bool" where
  "condPriceAbove rules price =
     (case above rules of Some a \<Rightarrow> js_ge price a | None \<Rightarrow> False)"

definition condPctUp :: "jsnum option \<Rightarrow> jsnum \<Rightarrow> bool" where
  "condPctUp chg pctThreshold =
     (case chg of Some c \<Rightarrow> js_ge c pctThreshold | None \<Rightarrow> False)"

definition condPctDown :: "jsnum option \<Rightarrow> jsnum \<Rightarrow> bool" where
  "condPctDown chg pctThreshold =
     (case chg of Some c \<Rightarrow> js_le c (js_neg pctThreshold) | None \<Rightarrow> False)"

subsection \<open>Configuration read at the start of a run\<close>

definition orElse :: "'a option \<Rightarrow> 'a \<Rightarrow> 'a" where
  "orElse v d = (case v of None \<Rightarrow> d | Some x \<Rightarrow> x)"

definition priceLevels :: "Env \<Rightarrow> (string \<rightharpoonup> Rules)" where
  "priceLevels env = parsePriceLevels (orElse (PRICE_LEVELS env) [])"

definition pctThreshold :: "Env \<Rightarrow> jsnum" where
  "pctThreshold env = Number (Some (orElse (PCT_THRESHOLD env) ''10''))"

definition cooldownMin :: "Env \<Rightarrow> jsnum" where
  "cooldownMin env = Number (Some (orElse (ALERT_COOLDOWN_MINUTES env) ''30''))"

definition cooldownMs :: "Env \<Rightarrow> jsnum" where
  "cooldownMs env = js_mul (js_mul (cooldownMin env) (Finite 60)) (Finite 1000)"

definition watchlist :: "Env \<Rightarrow> string list" where
  "watchlist env =
     filter (\<lambda>s. s \<noteq> [])
       (map (\<lambda>s. toUpperCase (trim s)) (split (CHR '','') (orElse (WATCHLIST env) ''AAPL,TSLA'')))"

subsection \<open>The decision rule \<open>tryAlert\<close> of \<open>runAlertsOnce\<close>\<close>

text \<open>
  The variables that \<open>tryAlert\<close> reads and writes while one symbol is processed: the
  \<open>state\<close> object (after both fields have been defaulted to \<open>{}\<close>), \<open>sentKeys\<close>, the
  counter \<open>sent\<close>, and the world's outbox and call count.
\<close>

record Frame =
  st_lastSentAt :: "string \<rightharpoonup> int"
  st_lastCond :: "string \<rightharpoonup> bool"
  sentKeys :: "string list"
  sent :: nat
  f_outbox :: "(string \<times> string) list"
  f_ticks :: nat

text \<open>
  The result is the exception thrown, if any, and the variables as they are then: what
  was sent and counted before a throw stays sent and counted.
\<close>

definition tryAlert ::
  "Env \<Rightarrow> Oracle \<Rightarrow> bool \<Rightarrow> jsnum \<Rightarrow> string \<Rightarrow> string \<Rightarrow> bool \<Rightarrow> Frame
     \<Rightarrow> error option \<times> Frame" where
  "tryAlert env orc frc cooldown smb key cond f =
     (let now = now_at orc (f_ticks f);
          res_ok = deliver_ok orc (f_ticks f);
          f1 = f\<lparr>f_ticks := Suc (f_ticks f)\<rparr>
      in if frc then
           (if cond then
              (case sendDiscord (DISCORD_WEBHOOK_URL env) res_ok of
                 Inl e \<Rightarrow> (Some e, f1)
               | Inr u \<Rightarrow>
                   (None, f1\<lparr>f_outbox := f_outbox f1 @ [(smb, key)],
                              sent := Suc (sent f1),
                              sentKeys := sentKeys f1 @ [key]\<rparr>))
            else (None, f1))
         else
           (let prev = orElse (st_lastCond f1 key) False;
                last = orElse (st_lastSentAt f1 key) 0
            in if cond \<and> \<not> prev \<and> js_ge (Finite (of_int (now - last))) cooldown then
                 (case sendDiscord (DISCORD_WEBHOOK_URL env) res_ok of
                    Inl e \<Rightarrow> (Some e, f1)
                  | Inr u \<Rightarrow>
                      (None, f1\<lparr>f_outbox := f_outbox f1 @ [(smb, key)],
                                 st_lastSentAt := (st_lastSentAt f1)(key \<mapsto> now),
                                 sent := Suc (sent f1),
                                 sentKeys := sentKeys f1 @ [key],
                                 st_lastCond := (st_lastCond f1)(key \<mapsto> cond)\<rparr>))
               else (None, f1\<lparr>st_lastCond := (st_lastCond f1)(key \<mapsto> cond)\<rparr>)))"

text \<open>Sequencing of awaited calls: an exception skips what follows.\<close>

definition and_then ::
  "error option \<times> 'f \<Rightarrow> ('f \<Rightarrow> error option \<times> 'f) \<Rightarrow> error option \<times> 'f" where
  "and_then r g = (case r of (None, f) \<Rightarrow> g f | (Some e, f) \<Rightarrow> (Some e, f))"

text \<open>
  The four condition checks of one symbol, in the order of the source; the two price
  checks are made only when \<open>typeof rules.below\<close>, respectively \<open>rules.above\<close>, is
  \<open>"number"\<close>.
\<close>

definition checks ::
  "Env \<Rightarrow> Oracle \<Rightarrow> bool \<Rightarrow> jsnum \<Rightarrow> string \<Rightarrow> Rules \<Rightarrow> bool \<Rightarrow> bool \<Rightarrow> bool \<Rightarrow> bool \<Rightarrow> Frame
     \<Rightarrow> error option \<times> Frame" where
  "checks env orc frc cooldown smb rules cBelow cAbove cUp cDown f =
     and_then
       (and_then
          (and_then
             (if below rules \<noteq> None
              then tryAlert env orc frc cooldown smb ''price_below'' cBelow f
              else (None, f))
             (\<lambda>f. if above rules \<noteq> None
                  then tryAlert env orc frc cooldown smb ''price_above'' cAbove f
                  else (None, f)))
          (tryAlert env orc frc cooldown smb ''pct_up'' cUp))
       (tryAlert env orc frc cooldown smb ''pct_down'' cDown)"

subsection \<open>\<open>runAlertsOnce\<close>\<close>

text \<open>The variables of the loop over the symbols: the world, \<open>sent\<close> and \<open>details\<close>.\<close>

record Run =
  run_world :: World
  run_sent :: nat
  run_details :: "Detail list"

definition stateKey :: "string \<Rightarrow> string" where
  "stateKey smb = ''alerts:'' @ smb"

definition load_state :: "World \<Rightarrow> string \<Rightarrow> (string \<rightharpoonup> int) \<times> (string \<rightharpoonup> bool)" where
  "load_state w smb =
     (let state = orElse (store w (stateKey smb)) \<lparr>lastSentAt = None, lastCond = None\<rparr>
      in (orElse (lastSentAt state) Map.empty, orElse (lastCond state) Map.empty))"

text \<open>The body of the loop of \<open>runAlertsOnce\<close> for one symbol.\<close>

definition alert_symbol ::
  "Env \<Rightarrow> Oracle \<Rightarrow> bool \<Rightarrow> (string \<rightharpoonup> Rules) \<Rightarrow> jsnum \<Rightarrow> jsnum
     \<Rightarrow> (string \<rightharpoonup> AlpacaSnapshot) \<Rightarrow> Run \<Rightarrow> string \<Rightarrow> Run" where
  "alert_symbol env orc frc levels threshold cooldown snapshots run smb =
     (let w = run_world run;
          detail = \<lparr>d_symbol = smb, d_sent = [], d_currentPrice = None, d_prevClose = None,
                    d_changePct = None, d_rules = None, d_note = None\<rparr>
      in case snapshots smb of
           None \<Rightarrow>
             run\<lparr>run_details := run_details run @ [detail\<lparr>d_note := Some ''no snapshot''\<rparr>]\<rparr>
         | Some snap \<Rightarrow>
             (let detail1 = detail\<lparr>d_currentPrice := currentPrice snap,
                                   d_prevClose := prevClose snap\<rparr>
              in case currentPrice snap of
                   None \<Rightarrow>
                     run\<lparr>run_details :=
                           run_details run @ [detail1\<lparr>d_note := Some ''no current price''\<rparr>]\<rparr>
                 | Some price \<Rightarrow>
                     (let chg = changePct price (prevClose snap);
                          rules = orElse (levels smb) no_rules;
                          detail2 = detail1\<lparr>d_changePct := chg, d_rules := Some rules\<rparr>;
                          (lsa, lc) = load_state w smb;
                          f0 = \<lparr>st_lastSentAt = lsa, st_lastCond = lc, sentKeys = [],
                                sent = run_sent run, f_outbox = outbox w, f_ticks = ticks w\<rparr>;
                          (err, f) = checks env orc frc cooldown smb rules
                                       (condPriceBelow rules price) (condPriceAbove rules price)
                                       (condPctUp chg threshold) (condPctDown chg threshold) f0;
                          detail3 = detail2\<lparr>d_sent := sentKeys f\<rparr>
                      in case err of
                           None \<Rightarrow>
                             \<lparr>run_world =
                                \<lparr>store =
                                   (if frc then store w
                                    else (store w)(stateKey smb \<mapsto>
                                           \<lparr>lastSentAt = Some (st_lastSentAt f),
                                            lastCond = Some (st_lastCond f)\<rparr>)),
                                 outbox = f_outbox f, ticks = f_ticks f\<rparr>,
                              run_sent = sent f,
                              run_details = run_details run @ [detail3]\<rparr>
                         | Some e \<Rightarrow>
                             \<lparr>run_world = \<lparr>store = store w, outbox = f_outbox f, ticks = f_ticks f\<rparr>,
                              run_sent = sent f,
                              run_details =
                                run_details run @ [detail3\<lparr>d_note := Some ''error''\<rparr>]\<rparr>)))"

definition select_symbols :: "Env \<Rightarrow> Opts \<Rightarrow> string list" where
  "select_symbols env opts =
     (case symbols opts of
        None \<Rightarrow> watchlist env
      | Some ss \<Rightarrow>
          if length ss \<noteq> 0
          then filter (\<lambda>s. s \<noteq> []) (map (\<lambda>s. toUpperCase (trim s)) ss)
          else watchlist env)"

definition runAlertsOnce ::
  "Env \<Rightarrow> Opts \<Rightarrow> Oracle \<Rightarrow> (string \<rightharpoonup> AlpacaSnapshot) \<Rightarrow> World \<Rightarrow> Summary \<times> World" where
  "runAlertsOnce env opts orc snapshots w =
     (let syms = select_symbols env opts;
          run = foldl (alert_symbol env orc (force opts) (priceLevels env) (pctThreshold env)
                        (cooldownMs env) snapshots)
                  \<lparr>run_world = w, run_sent = 0, run_details = []\<rparr> syms
      in (\<lparr>r_ok = True, r_symbols = length syms, r_sent = run_sent run,
           r_details = run_details run\<rparr>,
          run_world run))"

subsection \<open>\<open>runCron\<close>\<close>

record CronFrame =
  c_lastSentAt :: "string \<rightharpoonup> int"
  c_lastCond :: "string \<rightharpoonup> bool"
  c_outbox :: "(string \<times> string) list"
  c_ticks :: nat

definition cron_tryAlert ::
  "Env \<Rightarrow> Oracle \<Rightarrow> jsnum \<Rightarrow> string \<Rightarrow> string \<Rightarrow> bool \<Rightarrow> CronFrame \<Rightarrow> error option \<times> CronFrame" where
  "cron_tryAlert env orc cooldown smb key cond f =
     (let prev = orElse (c_lastCond f key) False;
          last = orElse (c_lastSentAt f key) 0;
          now = now_at orc (c_ticks f);
          res_ok = deliver_ok orc (c_ticks f);
          f1 = f\<lparr>c_ticks := Suc (c_ticks f)\<rparr>
      in if cond \<and> \<not> prev \<and> js_ge (Finite (of_int (now - last))) cooldown then
           (case sendDiscord (DISCORD_WEBHOOK_URL env) res_ok of
              Inl e \<Rightarrow> (Some e, f1)
            | Inr u \<Rightarrow>
                (None, f1\<lparr>c_outbox := c_outbox f1 @ [(smb, key)],
                           c_lastSentAt := (c_lastSentAt f1)(key \<mapsto> now),
                           c_lastCond := (c_lastCond f1)(key \<mapsto> cond)\<rparr>))
         else (None, f1\<lparr>c_lastCond := (c_lastCond f1)(key \<mapsto> cond)\<rparr>))"

definition cron_checks ::
  "Env \<Rightarrow> Oracle \<Rightarrow> jsnum \<Rightarrow> string \<Rightarrow> Rules \<Rightarrow> bool \<Rightarrow> bool \<Rightarrow> bool \<Rightarrow> bool \<Rightarrow> CronFrame
     \<Rightarrow> error option \<times> CronFrame" where
  "cron_checks env orc cooldown smb rules cBelow cAbove cUp cDown f =
     and_then
       (and_then
          (and_then
             (if below rules \<noteq> None
              then cron_tryAlert env orc cooldown smb ''price_below'' cBelow f
              else (None, f))
             (\<lambda>f. if above rules \<noteq> None
                  then cron_tryAlert env orc cooldown smb ''price_above'' cAbove f
                  else (None, f)))
          (cron_tryAlert env orc cooldown smb ''pct_up'' cUp))
       (cron_tryAlert env orc cooldown smb ''pct_down'' cDown)"

text \<open>The body of the loop of \<open>runCron\<close> for one symbol.\<close>

definition cron_symbol ::
  "Env \<Rightarrow> Oracle \<Rightarrow> (string \<rightharpoonup> Rules) \<Rightarrow> jsnum \<Rightarrow> jsnum
     \<Rightarrow> (string \<rightharpoonup> AlpacaSnapshot) \<Rightarrow> World \<Rightarrow> string \<Rightarrow> World" where
  "cron_symbol env orc levels threshold cooldown snapshots w smb =
     (case snapshots smb of
        None \<Rightarrow> w
      | Some snap \<Rightarrow>
          (case currentPrice snap of
             None \<Rightarrow> w
           | Some price \<Rightarrow>
               (let chg = changePct price (prevClose snap);
                    (lsa, lc) = load_state w smb;
                    rules = orElse (levels smb) no_rules;
                    f0 = \<lparr>c_lastSentAt = lsa, c_lastCond = lc, c_outbox = outbox w,
                          c_ticks = ticks w\<rparr>;
                    (err, f) = cron_checks env orc cooldown smb rules
                                 (condPriceBelow rules price) (condPriceAbove rules price)
                                 (condPctUp chg threshold) (condPctDown chg threshold) f0
                in case err of
                     None \<Rightarrow>
                       \<lparr>store = (store w)(stateKey smb \<mapsto>
                                  \<lparr>lastSentAt = Some (c_lastSentAt f),
                                   lastCond = Some (c_lastCond f)\<rparr>),
                        outbox = c_outbox f, ticks = c_ticks f\<rparr>
                   | Some e \<Rightarrow> \<lparr>store = store w, outbox = c_outbox f, ticks = c_ticks f\<rparr>)))"

definition runCron :: "Env \<Rightarrow> Oracle \<Rightarrow> (string \<rightharpoonup> AlpacaSnapshot) \<Rightarrow> World \<Rightarrow> World" where
  "runCron env orc snapshots w =
     foldl (cron_symbol env orc (priceLevels env) (pctThreshold env) (cooldownMs env) snapshots)
       w (watchlist env)"

section \<open>Notions used to state the properties\<close>

subsection \<open>The checks of a symbol as a list\<close>

text \<open>
  The condition keys that \<open>checks\<close> passes to \<open>tryAlert\<close>, with their truth values, in
  order; \<open>try_all\<close> runs \<open>tryAlert\<close> along such a list and stops at the first exception.
  Lemma \<open>checks_try_all\<close> below shows that \<open>checks\<close> is \<open>try_all\<close> on \<open>check_list\<close>.
\<close>

definition check_list :: "Rules \<Rightarrow> bool \<Rightarrow> bool \<Rightarrow> bool \<Rightarrow> bool \<Rightarrow> (string \<times> bool) list" where
  "check_list rules cBelow cAbove cUp cDown =
     (if below rules \<noteq> None then [(''price_below'', cBelow)] else [])
     @ (if above rules \<noteq> None then [(''price_above'', cAbove)] else [])
     @ [(''pct_up'', cUp), (''pct_down'', cDown)]"

fun try_all ::
  "Env \<Rightarrow> Oracle \<Rightarrow> bool \<Rightarrow> jsnum \<Rightarrow> string \<Rightarrow> (string \<times> bool) list \<Rightarrow> Frame
     \<Rightarrow> error option \<times> Frame" where
  "try_all env orc frc cooldown smb [] f = (None, f)"
| "try_all env orc frc cooldown smb (kc # kcs) f =
     and_then (tryAlert env orc frc cooldown smb (fst kc) (snd kc) f)
       (try_all env orc frc cooldown smb kcs)"

text \<open>The variables of \<open>runCron\<close>'s \<open>tryAlert\<close> among those of \<open>runAlertsOnce\<close>'s.\<close>

definition cron_view :: "Frame \<Rightarrow> CronFrame" where
  "cron_view f = \<lparr>c_lastSentAt = st_lastSentAt f, c_lastCond = st_lastCond f,
                  c_outbox = f_outbox f, c_ticks = f_ticks f\<rparr>"

text \<open>
  The checks that \<open>alert_symbol\<close> runs for a symbol whose snapshot \<open>snap\<close> has the
  current price \<open>price\<close>, from the loop variables \<open>run\<close>: the exception thrown, if
  any, and the variables of \<open>tryAlert\<close> at the end.
\<close>

definition symbol_checks ::
  "Env \<Rightarrow> Oracle \<Rightarrow> bool \<Rightarrow> (string \<rightharpoonup> Rules) \<Rightarrow> jsnum \<Rightarrow> jsnum \<Rightarrow> AlpacaSnapshot \<Rightarrow> jsnum
     \<Rightarrow> Run \<Rightarrow> string \<Rightarrow> error option \<times> Frame" where
  "symbol_checks env orc frc levels threshold cooldown snap price run smb =
     (let chg = changePct price (prevClose snap);
          rules = orElse (levels smb) no_rules
      in checks env orc frc cooldown smb rules
           (condPriceBelow rules price) (condPriceAbove rules price)
           (condPctUp chg threshold) (condPctDown chg threshold)
           \<lparr>st_lastSentAt = fst (load_state (run_world run) smb),
            st_lastCond = snd (load_state (run_world run) smb), sentKeys = [],
            sent = run_sent run, f_outbox = outbox (run_world run),
            f_ticks = ticks (run_world run)\<rparr>)"

text \<open>
  Two relations between the variables of \<open>tryAlert\<close>: equal but for the \<open>state\<close>
  object, and equal but for what is reported (\<open>sent\<close> and \<open>sentKeys\<close>); and between
  the loop variables: equal but for the store.
\<close>

definition same_effects :: "Frame \<Rightarrow> Frame \<Rightarrow> bool" where
  "same_effects f1 f2 =
     (sentKeys f1 = sentKeys f2 \<and> sent f1 = sent f2 \<and> f_outbox f1 = f_outbox f2
      \<and> f_ticks f1 = f_ticks f2)"

definition same_state :: "Frame \<Rightarrow> Frame \<Rightarrow> bool" where
  "same_state f1 f2 =
     (st_lastSentAt f1 = st_lastSentAt f2 \<and> st_lastCond f1 = st_lastCond f2
      \<and> f_outbox f1 = f_outbox f2 \<and> f_ticks f1 = f_ticks f2)"

definition same_but_store :: "Run \<Rightarrow> Run \<Rightarrow> bool" where
  "same_but_store r1 r2 =
     (run_sent r1 = run_sent r2 \<and> run_details r1 = run_details r2
      \<and> outbox (run_world r1) = outbox (run_world r2)
      \<and> ticks (run_world r1) = ticks (run_world r2))"

subsection \<open>Persisted state of a (symbol, condition)\<close>

text \<open>
  \<open>wasMet\<close> and \<open>lastFiredAt\<close> are what \<open>tryAlert\<close> reads as \<open>prev\<close> and \<open>last\<close>
  from the stored state of a symbol: absent entries are \<open>false\<close> and \<open>0\<close>.
\<close>

definition wasMet :: "World \<Rightarrow> string \<Rightarrow> string \<Rightarrow> bool" where
  "wasMet w smb key = orElse (snd (load_state w smb) key) False"

definition lastFiredAt :: "World \<Rightarrow> string \<Rightarrow> string \<Rightarrow> int" where
  "lastFiredAt w smb key = orElse (fst (load_state w smb) key) 0"

text \<open>The notifications delivered between an earlier world and a later one.\<close>

definition new_posts :: "World \<Rightarrow> World \<Rightarrow> (string \<times> string) list" where
  "new_posts w w' = drop (length (outbox w)) (outbox w')"

text \<open>A delivery attempted in the \<open>n\<close>-th call of \<open>tryAlert\<close> throws.\<close>

definition delivery_fails :: "Env \<Rightarrow> Oracle \<Rightarrow> nat \<Rightarrow> bool" where
  "delivery_fails env orc n = isl (sendDiscord (DISCORD_WEBHOOK_URL env) (deliver_ok orc n))"

subsection \<open>Evaluation cycles\<close>

text \<open>
  One evaluation cycle is one pass of the loop body for one symbol, in a scheduled run
  (\<open>runCron\<close>) or in an on-demand run (\<open>runAlertsOnce\<close>, with its force flag). Both
  functions are folds of cycles over their symbols (lemmas \<open>runCron_cycles\<close> and
  \<open>runAlertsOnce_cycles\<close>), so every sequence of runs is a sequence of cycles.
\<close>

datatype entry = Scheduled | OnDemand bool

record Cycle =
  c_entry :: entry
  c_env :: Env
  c_snapshots :: "string \<rightharpoonup> AlpacaSnapshot"
  c_symbol :: string

fun normal_entry :: "entry \<Rightarrow> bool" where
  "normal_entry Scheduled = True"
| "normal_entry (OnDemand frc) = (\<not> frc)"

definition is_normal :: "Cycle \<Rightarrow> bool" where
  "is_normal c = normal_entry (c_entry c)"

definition cycle :: "Oracle \<Rightarrow> World \<Rightarrow> Cycle \<Rightarrow> World" where
  "cycle orc w c =
     (let env = c_env c in
      case c_entry c of
        Scheduled \<Rightarrow>
          cron_symbol env orc (priceLevels env) (pctThreshold env) (cooldownMs env)
            (c_snapshots c) w (c_symbol c)
      | OnDemand frc \<Rightarrow>
          run_world
            (alert_symbol env orc frc (priceLevels env) (pctThreshold env) (cooldownMs env)
               (c_snapshots c) \<lparr>run_world = w, run_sent = 0, run_details = []\<rparr> (c_symbol c)))"

definition cycles :: "Oracle \<Rightarrow> World \<Rightarrow> Cycle list \<Rightarrow> World" where
  "cycles orc w cs = foldl (cycle orc) w cs"

text \<open>
  The truth value a cycle computes for a condition key of its symbol; None when the
  cycle has no value for it (no snapshot, no current price, a price rule that is not
  configured, or a key that is not one of the four).
\<close>

definition cond_of :: "Cycle \<Rightarrow> string \<Rightarrow> bool option" where
  "cond_of c key =
     (case c_snapshots c (c_symbol c) of
        None \<Rightarrow> None
      | Some snap \<Rightarrow>
          (case currentPrice snap of
             None \<Rightarrow> None
           | Some price \<Rightarrow>
               (let rules = orElse (priceLevels (c_env c) (c_symbol c)) no_rules;
                    chg = changePct price (prevClose snap)
                in map_of
                     (check_list rules (condPriceBelow rules price) (condPriceAbove rules price)
                        (condPctUp chg (pctThreshold (c_env c)))
                        (condPctDown chg (pctThreshold (c_env c))))
                     key)))"

subsection \<open>Entries of a rule string\<close>

text \<open>
  What one \<open>;\<close>-separated chunk contributes to the result of \<open>parsePriceLevels\<close>:
  nothing, or a symbol and the rule object built from that chunk alone (lemma
  \<open>chunk_step_entry\<close>).
\<close>

definition chunk_entry :: "string \<Rightarrow> (string \<times> Rules) option" where
  "chunk_entry chunk =
     (let parts = split (CHR '':'') (trim chunk);
          symbol = toUpperCase (trim (orElse (item parts 0) []))
      in case item parts 1 of
           None \<Rightarrow> None
         | Some rr \<Rightarrow>
             if trim chunk = [] \<or> symbol = [] \<or> rr = [] then None
             else Some (symbol, foldl kv_step no_rules (split (CHR '','') rr)))"

text \<open>An optional threshold is either absent or a finite number.\<close>

definition finite_opt :: "jsnum option \<Rightarrow> bool" where
  "finite_opt v = (case v of None \<Rightarrow> True | Some x \<Rightarrow> isFinite x)"

subsection \<open>A concrete scenario\<close>

text \<open>
  One watched symbol with a rule \<open>below = 170\<close>, default threshold (10 percent) and
  cooldown (30 minutes). AAPL trades at 165 after a previous close of 200, so that
  \<open>price_below\<close> and \<open>pct_down\<close> are both true; TSLA has a snapshot without any price;
  no other symbol has a snapshot. The store holds a \<open>price_below\<close> notification of AAPL
  sent at time 9000000 and the condition recorded false since.
\<close>

definition demo_env :: Env where
  "demo_env =
     \<lparr>DISCORD_WEBHOOK_URL = Some ''https://discord.test/hook'', WATCHLIST = Some ''aapl'',
      PRICE_LEVELS = Some ''AAPL:below=170'', PCT_THRESHOLD = None,
      ALERT_COOLDOWN_MINUTES = None\<rparr>"

definition demo_aapl :: AlpacaSnapshot where
  "demo_aapl =
     \<lparr>latestTrade = Some \<lparr>trade_p = Finite 165, trade_t = []\<rparr>,
      minuteBar = None, dailyBar = None,
      prevDailyBar = Some \<lparr>bar_c = Finite 200, bar_t = []\<rparr>\<rparr>"

definition demo_snapshots :: "string \<rightharpoonup> AlpacaSnapshot" where
  "demo_snapshots =
     [''AAPL'' \<mapsto> demo_aapl,
      ''TSLA'' \<mapsto> \<lparr>latestTrade = None, minuteBar = None, dailyBar = None,
                  prevDailyBar = None\<rparr>]"

definition demo_world :: World where
  "demo_world =
     \<lparr>store = [stateKey ''AAPL'' \<mapsto>
                \<lparr>lastSentAt = Some [''price_below'' \<mapsto> 9000000],
                 lastCond = Some [''price_below'' \<mapsto> False]\<rparr>],
      outbox = [], ticks = 0\<rparr>"

text \<open>
  Two environments: in the first the clock stands at 10000000 and every delivery
  succeeds; in the second the clock reads 10000000 in the first three calls of
  \<open>tryAlert\<close> and 20000000 afterwards, and the delivery of the third call fails.
\<close>

definition steady_oracle :: Oracle where
  "steady_oracle = \<lparr>now_at = (\<lambda>n. 10000000), deliver_ok = (\<lambda>n. True)\<rparr>"

definition failing_oracle :: Oracle where
  "failing_oracle =
     \<lparr>now_at = (\<lambda>n. if n < 3 then 10000000 else 20000000), deliver_ok = (\<lambda>n. n \<noteq> 2)\<rparr>"

definition demo_cycle :: Cycle where
  "demo_cycle =
     \<lparr>c_entry = Scheduled, c_env = demo_env, c_snapshots = demo_snapshots,
      c_symbol = ''AAPL''\<rparr>"


section \<open>Properties\<close>

subsection \<open>The sequence of checks\<close>

lemma and_then_assoc: "and_then (and_then r g) h = and_then r (\<lambda>f. and_then (g f) h)"
  by (auto simp: and_then_def split: prod.splits option.splits)

lemma and_then_None [simp]: "and_then (None, f) g = g f"
  by (simp add: and_then_def)

lemma and_then_Some [simp]: "and_then (Some e, f) g = (Some e, f)"
  by (simp add: and_then_def)

lemma and_then_unit: "and_then r (\<lambda>f. (None, f)) = r"
  by (auto simp: and_then_def split: prod.splits option.splits)

lemma try_all_Nil_fun: "try_all env orc frc cooldown smb [] = (\<lambda>f. (None, f))"
  by (rule ext) simp

lemma try_all_Cons_fun:
  "try_all env orc frc cooldown smb (kc # kcs) =
   (\<lambda>f. and_then (tryAlert env orc frc cooldown smb (fst kc) (snd kc) f)
          (try_all env orc frc cooldown smb kcs))"
  by (rule ext) simp

lemma checks_try_all:
  "checks env orc frc cooldown smb rules cB cA cU cD f =
   try_all env orc frc cooldown smb (check_list rules cB cA cU cD) f"
  by (simp add: checks_def check_list_def and_then_assoc and_then_unit
      try_all_Nil_fun try_all_Cons_fun)

lemma tryAlert_sent:
  assumes "tryAlert env orc frc cooldown smb key cond f = (err, f')"
  shows "\<exists>ks. sentKeys f' = sentKeys f @ ks \<and> f_outbox f' = f_outbox f @ map (Pair smb) ks
            \<and> sent f' = sent f + length ks \<and> set ks \<subseteq> {key} \<and> f_ticks f' = Suc (f_ticks f)"
  using assms
  by (auto simp: tryAlert_def Let_def split: if_splits sum.splits)

lemma try_all_sent:
  assumes "try_all env orc frc cooldown smb kcs f = (err, f')"
  shows "\<exists>ks. sentKeys f' = sentKeys f @ ks \<and> f_outbox f' = f_outbox f @ map (Pair smb) ks
            \<and> sent f' = sent f + length ks \<and> set ks \<subseteq> fst ` set kcs \<and> f_ticks f \<le> f_ticks f'"
  using assms
proof (induction kcs arbitrary: f)
  case Nil
  then show ?case by simp
next
  case (Cons kc kcs)
  obtain e1 f1 where t: "tryAlert env orc frc cooldown smb (fst kc) (snd kc) f = (e1, f1)"
    by (cases "tryAlert env orc frc cooldown smb (fst kc) (snd kc) f")
  from tryAlert_sent[OF t] obtain ks1 where k1:
    "sentKeys f1 = sentKeys f @ ks1" "f_outbox f1 = f_outbox f @ map (Pair smb) ks1"
    "sent f1 = sent f + length ks1" "set ks1 \<subseteq> {fst kc}" "f_ticks f1 = Suc (f_ticks f)"
    by blast
  show ?case
  proof (cases e1)
    case None
    with Cons.prems t have r: "try_all env orc frc cooldown smb kcs f1 = (err, f')" by simp
    from Cons.IH[OF r] obtain ks2 where k2:
      "sentKeys f' = sentKeys f1 @ ks2" "f_outbox f' = f_outbox f1 @ map (Pair smb) ks2"
      "sent f' = sent f1 + length ks2" "set ks2 \<subseteq> fst ` set kcs" "f_ticks f1 \<le> f_ticks f'"
      by blast
    show ?thesis
      by (rule exI[of _ "ks1 @ ks2"]) (use k1 k2 in auto)
  next
    case (Some e)
    with Cons.prems t have "f' = f1" by simp
    then show ?thesis
      by (intro exI[of _ ks1]) (use k1 in auto)
  qed
qed


lemma cron_tryAlert_view:
  "cron_tryAlert env orc cooldown smb key cond (cron_view f) =
   map_prod id cron_view (tryAlert env orc False cooldown smb key cond f)"
  by (simp add: cron_tryAlert_def tryAlert_def cron_view_def Let_def split: sum.splits)

lemma and_then_view:
  assumes "\<And>f. g' (v f) = map_prod id v (g f)"
  shows "and_then (map_prod id v r) g' = map_prod id v (and_then r g)"
  using assms by (cases r) (auto simp: and_then_def split: option.splits)

lemma cron_checks_view:
  "cron_checks env orc cooldown smb rules cB cA cU cD (cron_view f) =
   map_prod id cron_view (checks env orc False cooldown smb rules cB cA cU cD f)"
proof -
  have a: "(if below rules \<noteq> None
            then cron_tryAlert env orc cooldown smb ''price_below'' cB (cron_view f)
            else (None, cron_view f)) =
           map_prod id cron_view
            (if below rules \<noteq> None
             then tryAlert env orc False cooldown smb ''price_below'' cB f else (None, f))"
    by (simp add: cron_tryAlert_view)
  have b: "\<And>f. (if above rules \<noteq> None
            then cron_tryAlert env orc cooldown smb ''price_above'' cA (cron_view f)
            else (None, cron_view f)) =
           map_prod id cron_view
            (if above rules \<noteq> None
             then tryAlert env orc False cooldown smb ''price_above'' cA f else (None, f))"
    by (simp add: cron_tryAlert_view)
  note s1 = and_then_view[where v = cron_view
      and g' = "\<lambda>f. if above rules \<noteq> None
                   then cron_tryAlert env orc cooldown smb ''price_above'' cA f
                   else (None, f)"
      and g = "\<lambda>f. if above rules \<noteq> None
                   then tryAlert env orc False cooldown smb ''price_above'' cA f
                   else (None, f)", OF b]
  note s2 = and_then_view[where v = cron_view
      and g' = "cron_tryAlert env orc cooldown smb key cond"
      and g = "tryAlert env orc False cooldown smb key cond" for key cond,
      OF cron_tryAlert_view]
  show ?thesis
    unfolding cron_checks_def checks_def a s1 s2 ..
qed

lemma alert_symbol_view:
  assumes "snapshots smb = Some snap" and "currentPrice snap = Some price"
    and "rules = orElse (levels smb) no_rules"
    and "chg = changePct price (prevClose snap)"
    and "checks env orc frc cooldown smb rules
           (condPriceBelow rules price) (condPriceAbove rules price)
           (condPctUp chg threshold) (condPctDown chg threshold)
           \<lparr>st_lastSentAt = fst (load_state (run_world run) smb),
            st_lastCond = snd (load_state (run_world run) smb), sentKeys = [],
            sent = run_sent run, f_outbox = outbox (run_world run),
            f_ticks = ticks (run_world run)\<rparr> = (err, f)"
  shows "alert_symbol env orc frc levels threshold cooldown snapshots run smb =
         \<lparr>run_world =
            \<lparr>store = (if frc \<or> err \<noteq> None then store (run_world run)
                       else (store (run_world run))(stateKey smb \<mapsto>
                              \<lparr>lastSentAt = Some (st_lastSentAt f),
                               lastCond = Some (st_lastCond f)\<rparr>)),
             outbox = f_outbox f, ticks = f_ticks f\<rparr>,
          run_sent = sent f,
          run_details = run_details run @
            [\<lparr>d_symbol = smb, d_sent = sentKeys f, d_currentPrice = Some price,
              d_prevClose = prevClose snap, d_changePct = chg, d_rules = Some rules,
              d_note = (if err = None then None else Some ''error'')\<rparr>]\<rparr>"
proof -
  note c = assms(5)[unfolded assms(3) assms(4)]
  show ?thesis
    unfolding assms(3) assms(4) using c
    by (cases err; cases frc)
       (simp_all add: alert_symbol_def Let_def case_prod_beta assms(1) assms(2))
qed

lemma cron_symbol_alert_symbol:
  "cron_symbol env orc levels threshold cooldown snapshots (run_world run) smb =
   run_world (alert_symbol env orc False levels threshold cooldown snapshots run smb)"
proof (cases "snapshots smb")
  case None
  then show ?thesis by (simp add: cron_symbol_def alert_symbol_def)
next
  case (Some snap)
  show ?thesis
  proof (cases "currentPrice snap")
    case None
    with Some show ?thesis by (simp add: cron_symbol_def alert_symbol_def)
  next
    case (Some price)
    define rules where "rules = orElse (levels smb) no_rules"
    define chg where "chg = changePct price (prevClose snap)"
    define f0 where "f0 = \<lparr>st_lastSentAt = fst (load_state (run_world run) smb),
            st_lastCond = snd (load_state (run_world run) smb), sentKeys = [],
            sent = run_sent run, f_outbox = outbox (run_world run),
            f_ticks = ticks (run_world run)\<rparr>"
    obtain err f where c: "checks env orc False cooldown smb rules
           (condPriceBelow rules price) (condPriceAbove rules price)
           (condPctUp chg threshold) (condPctDown chg threshold) f0 = (err, f)"
      by (cases "checks env orc False cooldown smb rules
           (condPriceBelow rules price) (condPriceAbove rules price)
           (condPctUp chg threshold) (condPctDown chg threshold) f0")
    have v: "cron_view f0 = \<lparr>c_lastSentAt = fst (load_state (run_world run) smb),
         c_lastCond = snd (load_state (run_world run) smb), c_outbox = outbox (run_world run),
         c_ticks = ticks (run_world run)\<rparr>"
      by (simp add: cron_view_def f0_def)
    have cc: "cron_checks env orc cooldown smb rules
           (condPriceBelow rules price) (condPriceAbove rules price)
           (condPctUp chg threshold) (condPctDown chg threshold) (cron_view f0) = (err, cron_view f)"
      by (simp add: cron_checks_view c)
    have a: "run_world (alert_symbol env orc False levels threshold cooldown snapshots run smb) =
       \<lparr>store = (if err \<noteq> None then store (run_world run)
                       else (store (run_world run))(stateKey smb \<mapsto>
                              \<lparr>lastSentAt = Some (st_lastSentAt f),
                               lastCond = Some (st_lastCond f)\<rparr>)),
             outbox = f_outbox f, ticks = f_ticks f\<rparr>"
      using alert_symbol_view[where snapshots = snapshots and smb = smb and levels = levels,
              OF \<open>snapshots smb = Some snap\<close> Some rules_def chg_def c[unfolded f0_def]]
      by simp
    show ?thesis
      unfolding a using \<open>snapshots smb = Some snap\<close> Some cc[unfolded v]
      by (cases err)
         (simp_all add: cron_symbol_def Let_def rules_def[symmetric] chg_def[symmetric]
            cron_view_def case_prod_beta)
  qed
qed



subsection \<open>One symbol and the whole run\<close>


lemma alert_symbol_force_store:
  "store (run_world (alert_symbol env orc True levels threshold cooldown snapshots run smb)) =
   store (run_world run)"
  by (simp add: alert_symbol_def Let_def case_prod_beta split: option.splits)

lemma foldl_force_store:
  "store (run_world (foldl (alert_symbol env orc True levels threshold cooldown snapshots) run syms)) =
   store (run_world run)"
  by (induction syms arbitrary: run) (simp_all add: alert_symbol_force_store)

text \<open>
  C2. A force-mode run writes nothing to the State Store: whatever the symbols, the
  snapshots, the rules, the stored state and the outcome of the deliveries, the store
  after the run is the store before it.
\<close>

theorem force_run_keeps_store:
  "store (snd (runAlertsOnce env (opts\<lparr>force := True\<rparr>) orc snapshots w)) = store w"
  by (simp add: runAlertsOnce_def Let_def foldl_force_store)



lemma stateKey_inject [simp]: "(stateKey a = stateKey b) = (a = b)"
  by (simp add: stateKey_def)








subsection \<open>Percent change and the percent conditions\<close>


lemmas num_defs =
  Number_def StringToNumber_def trim_def is_space_def radix_literal_def unsigned_decimal_def
  is_digit_def digit_val_def digits_val_def exponent_part_def pow10_def to_double_def
  overflow_bound_def

lemma Number_10: "Number (Some ''10'') = Finite 10"
  by (simp add: num_defs)

lemma Number_30: "Number (Some ''30'') = Finite 30"
  by (simp add: num_defs)


lemma pct_not_both:
  assumes "js_gt threshold (Finite 0)"
  shows "\<not> (condPctUp chg threshold \<and> condPctDown chg threshold)"
proof (cases chg)
  case None
  then show ?thesis by (simp add: condPctUp_def)
next
  case (Some c)
  show ?thesis
    using assms unfolding Some
    by (cases c; cases threshold) (simp_all add: condPctUp_def condPctDown_def js_ge_def js_gt_def)
qed


subsection \<open>Rule parser\<close>

lemma Number_170: "Number (Some ''170'') = Finite 170"
  by (simp add: num_defs)

lemma Number_180: "Number (Some ''180'') = Finite 180"
  by (simp add: num_defs)

lemma Number_200: "Number (Some ''200'') = Finite 200"
  by (simp add: num_defs)

lemma Number_abc: "Number (Some ''abc'') = NaN"
  by (simp add: num_defs)

lemmas parse_defs =
  parsePriceLevels_def chunk_step_def kv_step_def split_def toUpperCase_def upper_char_def
  no_rules_def trim_def is_space_def

lemma parse_reference:
  "parsePriceLevels ''AAPL:below=170,above=200;TSLA:below=180'' =
     [''AAPL'' \<mapsto> \<lparr>below = Some (Finite 170), above = Some (Finite 200)\<rparr>,
      ''TSLA'' \<mapsto> \<lparr>below = Some (Finite 180), above = None\<rparr>]"
  by (simp add: parse_defs Number_170 Number_180 Number_200)

lemma parse_malformed:
  "parsePriceLevels ''AAPL:below=abc,above=200'' =
     [''AAPL'' \<mapsto> \<lparr>below = None, above = Some (Finite 200)\<rparr>]"
  by (simp add: parse_defs Number_abc Number_200)

lemma parse_duplicate:
  "parsePriceLevels ''AAPL:below=170;AAPL:above=200'' =
     [''AAPL'' \<mapsto> \<lparr>below = None, above = Some (Finite 200)\<rparr>]"
  by (simp add: parse_defs Number_170 Number_200)

lemma kv_step_finite:
  assumes "finite_opt (below r)" and "finite_opt (above r)"
  shows "finite_opt (below (kv_step r kv)) \<and> finite_opt (above (kv_step r kv))"
  using assms by (simp add: kv_step_def Let_def finite_opt_def)

lemma foldl_kv_step_finite:
  assumes "finite_opt (below r)" and "finite_opt (above r)"
  shows "finite_opt (below (foldl kv_step r kvs)) \<and> finite_opt (above (foldl kv_step r kvs))"
  using assms by (induction kvs arbitrary: r) (simp_all add: kv_step_finite)

lemma chunk_step_entry:
  "chunk_step out chunk =
     (case chunk_entry chunk of None \<Rightarrow> out | Some (s, r) \<Rightarrow> out(s \<mapsto> r))"
  by (simp add: chunk_step_def chunk_entry_def Let_def orElse_def split: option.splits)

lemma chunk_entry_finite:
  assumes "chunk_entry chunk = Some (s, r)"
  shows "finite_opt (below r) \<and> finite_opt (above r)"
proof -
  from assms obtain rr where "r = foldl kv_step no_rules (split (CHR '','') rr)"
    by (auto simp: chunk_entry_def Let_def split: option.splits if_splits)
  then show ?thesis
    using foldl_kv_step_finite[of no_rules] by (simp add: no_rules_def finite_opt_def)
qed

lemma foldl_chunk_step:
  "foldl chunk_step out chunks = out ++ map_of (rev (List.map_filter chunk_entry chunks))"
proof (induction chunks arbitrary: out)
  case Nil
  then show ?case by (simp add: List.map_filter_simps)
next
  case (Cons c cs)
  show ?case
  proof (cases "chunk_entry c")
    case None
    then have "chunk_step out c = out"
      by (simp add: chunk_step_entry)
    then show ?thesis
      using None by (simp add: Cons.IH List.map_filter_simps)
  next
    case (Some e)
    obtain s r where e: "e = (s, r)" by (cases e)
    have st: "chunk_step out c = out(s \<mapsto> r)"
      using Some e by (simp add: chunk_step_entry)
    have "out(s \<mapsto> r) ++ m = out ++ ([s \<mapsto> r] ++ m)" for m
      by (simp add: map_add_def fun_eq_iff split: option.splits)
    moreover have "foldl chunk_step out (c # cs) =
        out(s \<mapsto> r) ++ map_of (rev (List.map_filter chunk_entry cs))"
    proof -
      have "foldl chunk_step out (c # cs) = foldl chunk_step (out(s \<mapsto> r)) cs"
        by (simp add: st)
      then show ?thesis
        by (simp only: Cons.IH)
    qed
    moreover have "map_of (rev (List.map_filter chunk_entry (c # cs))) =
        [s \<mapsto> r] ++ map_of (rev (List.map_filter chunk_entry cs))"
      using Some e by (simp add: List.map_filter_simps)
    ultimately show ?thesis by simp
  qed
qed

lemma chunk_entry_blank: "trim chunk = [] \<Longrightarrow> chunk_entry chunk = None"
  by (simp add: chunk_entry_def Let_def split: option.splits)

lemma split_from_no_sep:
  "sep \<notin> set s \<Longrightarrow> split_from sep acc s = [rev acc @ s]"
  by (induction s arbitrary: acc) auto

lemma parsePriceLevels_entries:
  "parsePriceLevels input =
   map_of (rev (List.map_filter chunk_entry (split (CHR '';'') input)))"
proof (cases "trim input = []")
  case False
  then show ?thesis by (simp add: parsePriceLevels_def foldl_chunk_step)
next
  case True
  have "dropWhile is_space input = []"
  proof (rule ccontr)
    assume ne: "dropWhile is_space input \<noteq> []"
    then have "\<not> is_space (hd (dropWhile is_space input))"
      by (rule hd_dropWhile)
    moreover have "\<forall>x \<in> set (dropWhile is_space input). is_space x"
      using True by (simp add: trim_def dropWhile_eq_Nil_conv)
    ultimately show False
      using ne by (meson hd_in_set)
  qed
  then have "\<forall>c \<in> set input. is_space c"
    by (metis dropWhile_eq_Nil_conv)
  then have "CHR '';'' \<notin> set input"
    by (auto simp: is_space_def)
  then have "split (CHR '';'') input = [input]"
    by (simp add: split_def split_from_no_sep)
  then show ?thesis
    using True by (simp add: parsePriceLevels_def List.map_filter_simps chunk_entry_blank)
qed

lemma split_from_append_any:
  "split_from sep acc (a @ sep # b) = split_from sep acc a @ split_from sep [] b"
  by (induction a arbitrary: acc) simp_all

lemma split_last_chunk:
  assumes "sep \<notin> set c2"
  shows "split sep (c1 @ sep # c2) = split sep c1 @ [c2]"
  using assms by (simp add: split_def split_from_append_any split_from_no_sep)

lemma map_filter_append:
  "List.map_filter f (xs @ ys) = List.map_filter f xs @ List.map_filter f ys"
  by (simp add: List.map_filter_def)

text \<open>
  C7. The reference rule string parses to the reference mapping. The parser is a total
  function of the model: every operation of the source is defined on every string and
  none can throw, so its result is a mapping for every input; the mapping is finite and
  holds only finite thresholds. A clause whose value does not convert to a finite
  number leaves the rule object unchanged, as in \<open>AAPL:below=abc,above=200\<close>.
\<close>

theorem parser_reference_and_totality:
  "parsePriceLevels ''AAPL:below=170,above=200;TSLA:below=180'' =
     [''AAPL'' \<mapsto> \<lparr>below = Some (Finite 170), above = Some (Finite 200)\<rparr>,
      ''TSLA'' \<mapsto> \<lparr>below = Some (Finite 180), above = None\<rparr>]
   \<and> finite (dom (parsePriceLevels input))
   \<and> (case parsePriceLevels input smb of
         None \<Rightarrow> True
       | Some r \<Rightarrow> finite_opt (below r) \<and> finite_opt (above r))
   \<and> (\<not> isFinite (Number (item (map trim (split (CHR ''='') kv)) 1))
        \<longrightarrow> kv_step rules kv = rules)
   \<and> parsePriceLevels ''AAPL:below=abc,above=200'' =
       [''AAPL'' \<mapsto> \<lparr>below = None, above = Some (Finite 200)\<rparr>]"
proof -
  have fin: "finite (dom (parsePriceLevels input))"
    by (simp add: parsePriceLevels_entries finite_dom_map_of)
  have vals: "finite_opt (below r) \<and> finite_opt (above r)"
    if "parsePriceLevels input smb = Some r" for r
  proof -
    from that have "(smb, r) \<in> set (List.map_filter chunk_entry (split (CHR '';'') input))"
      by (auto simp: parsePriceLevels_entries dest: map_of_SomeD)
    then obtain c where "chunk_entry c = Some (smb, r)"
      by (auto simp: List.map_filter_def)
    then show ?thesis by (rule chunk_entry_finite)
  qed
  have drop: "\<not> isFinite (Number (item (map trim (split (CHR ''='') kv)) 1))
        \<longrightarrow> kv_step rules kv = rules"
    by (simp add: kv_step_def Let_def)
  show ?thesis
    using fin vals drop parse_reference parse_malformed
    by (simp split: option.splits)
qed

theorem parser_reference_and_totality_witness:
  "\<not> isFinite (Number (item (map trim (split (CHR ''='') ''below=abc'')) 1))
   \<and> kv_step no_rules ''below=abc'' = no_rules"
proof -
  have n: "\<not> isFinite (Number (item (map trim (split (CHR ''='') ''below=abc'')) 1))"
    by (simp add: split_def trim_def is_space_def Number_abc[unfolded trim_def is_space_def])
  with parser_reference_and_totality[of "[]" "[]" "''below=abc''" no_rules]
  show ?thesis by blast
qed

text \<open>
  C3, as amended. The result of the parser is the mapping of the entries of the rule
  string in which, for every symbol, the last entry of the symbol stands alone: the rule
  object of a later entry replaces the rule object of an earlier entry of the same
  symbol as a whole, so a key that only the earlier entry defines is not preserved.
  In particular, whatever precedes it, a last entry \<open>c2\<close> for a symbol decides the
  rules of that symbol.
\<close>

theorem later_entry_replaces:
  "parsePriceLevels input =
     map_of (rev (List.map_filter chunk_entry (split (CHR '';'') input)))
   \<and> (CHR '';'' \<notin> set c2 \<and> chunk_entry c2 = Some (smb, r2)
        \<longrightarrow> parsePriceLevels (c1 @ CHR '';'' # c2) smb = Some r2)"
proof (intro conjI impI)
  show "parsePriceLevels input =
     map_of (rev (List.map_filter chunk_entry (split (CHR '';'') input)))"
    by (rule parsePriceLevels_entries)
next
  assume a: "CHR '';'' \<notin> set c2 \<and> chunk_entry c2 = Some (smb, r2)"
  then have "split (CHR '';'') (c1 @ CHR '';'' # c2) = split (CHR '';'') c1 @ [c2]"
    by (simp add: split_last_chunk)
  then show "parsePriceLevels (c1 @ CHR '';'' # c2) smb = Some r2"
    using a by (simp add: parsePriceLevels_entries map_filter_append List.map_filter_simps)
qed

lemma entry_above_200:
  "chunk_entry ''AAPL:above=200'' = Some (''AAPL'', \<lparr>below = None, above = Some (Finite 200)\<rparr>)"
  by (simp add: chunk_entry_def kv_step_def split_def toUpperCase_def upper_char_def
      no_rules_def trim_def is_space_def orElse_def Number_200)

theorem later_entry_replaces_witness:
  "CHR '';'' \<notin> set ''AAPL:above=200''
   \<and> chunk_entry ''AAPL:above=200'' = Some (''AAPL'', \<lparr>below = None, above = Some (Finite 200)\<rparr>)
   \<and> parsePriceLevels (''AAPL:below=170'' @ CHR '';'' # ''AAPL:above=200'') ''AAPL'' =
       Some \<lparr>below = None, above = Some (Finite 200)\<rparr>"
proof -
  have s: "CHR '';'' \<notin> set ''AAPL:above=200''" by simp
  from later_entry_replaces[of "[]" "''AAPL:above=200''" "''AAPL''"
      "\<lparr>below = None, above = Some (Finite 200)\<rparr>" "''AAPL:below=170''"] s entry_above_200
  show ?thesis by blast
qed

text \<open>
  The claim as stated fails on its own example: the entry \<open>AAPL:below=170\<close> alone
  defines \<open>below\<close>, and after the later entry \<open>AAPL:above=200\<close> the rules of AAPL have
  no \<open>below\<close>.
\<close>

theorem duplicate_entry_counterexample:
  "parsePriceLevels ''AAPL:below=170'' ''AAPL'' = Some \<lparr>below = Some (Finite 170), above = None\<rparr>
   \<and> parsePriceLevels ''AAPL:below=170;AAPL:above=200'' ''AAPL'' =
       Some \<lparr>below = None, above = Some (Finite 200)\<rparr>
   \<and> parsePriceLevels ''AAPL:below=170;AAPL:above=200'' \<noteq>
       [''AAPL'' \<mapsto> \<lparr>below = Some (Finite 170), above = Some (Finite 200)\<rparr>]"
proof -
  have one: "parsePriceLevels ''AAPL:below=170'' ''AAPL'' =
      Some \<lparr>below = Some (Finite 170), above = None\<rparr>"
    by (simp add: parse_defs Number_170)
  have two: "parsePriceLevels ''AAPL:below=170;AAPL:above=200'' ''AAPL'' =
       Some \<lparr>below = None, above = Some (Finite 200)\<rparr>"
    by (simp add: parse_duplicate)
  have "[''AAPL'' \<mapsto> \<lparr>below = Some (Finite 170), above = Some (Finite 200)\<rparr>] ''AAPL'' \<noteq>
       Some \<lparr>below = None, above = Some (Finite 200)\<rparr>"
    by simp
  with two have "parsePriceLevels ''AAPL:below=170;AAPL:above=200'' \<noteq>
       [''AAPL'' \<mapsto> \<lparr>below = Some (Finite 170), above = Some (Finite 200)\<rparr>]"
    by metis
  with one two show ?thesis by simp
qed


subsection \<open>The decision rule along the checks of one symbol\<close>

text \<open>A key is listed as sent only if its condition was passed as true.\<close>

lemma tryAlert_sent_cond:
  assumes "tryAlert env orc frc cooldown smb key cond f = (err, f')"
    and "k \<in> set (sentKeys f')" and "k \<notin> set (sentKeys f)"
  shows "k = key \<and> cond"
  using assms by (auto simp: tryAlert_def Let_def split: if_splits sum.splits)

lemma try_all_sent_cond:
  assumes "try_all env orc frc cooldown smb kcs f = (err, f')"
    and "k \<in> set (sentKeys f')" and "k \<notin> set (sentKeys f)"
  shows "(k, True) \<in> set kcs"
  using assms
proof (induction kcs arbitrary: f)
  case Nil
  then show ?case by simp
next
  case (Cons kc kcs)
  obtain e1 f1 where t: "tryAlert env orc frc cooldown smb (fst kc) (snd kc) f = (e1, f1)"
    by (cases "tryAlert env orc frc cooldown smb (fst kc) (snd kc) f")
  show ?case
  proof (cases "k \<in> set (sentKeys f1)")
    case True
    from tryAlert_sent_cond[OF t True Cons.prems(3)] have "kc = (k, True)"
      by (cases kc) simp
    then show ?thesis by simp
  next
    case False
    have "e1 = None"
    proof (rule ccontr)
      assume "e1 \<noteq> None"
      then have "f' = f1" using Cons.prems(1) t by auto
      with False Cons.prems(2) show False by simp
    qed
    with Cons.prems(1) t have "try_all env orc frc cooldown smb kcs f1 = (err, f')"
      by simp
    from Cons.IH[OF this Cons.prems(2) False] show ?thesis by simp
  qed
qed

text \<open>One call of \<open>tryAlert\<close> in normal mode.\<close>

lemma tryAlert_normal:
  assumes "tryAlert env orc False cooldown smb key cond f = (err, f')"
  shows "f_ticks f' = Suc (f_ticks f)"
    and "err \<noteq> None \<Longrightarrow> delivery_fails env orc (f_ticks f)"
    and "err = None \<Longrightarrow> st_lastCond f' = (st_lastCond f)(key \<mapsto> cond)"
    and "k \<noteq> key \<Longrightarrow> st_lastCond f' k = st_lastCond f k \<and> st_lastSentAt f' k = st_lastSentAt f k"
    and "k \<in> set (sentKeys f') \<Longrightarrow> k \<notin> set (sentKeys f) \<Longrightarrow>
         \<not> orElse (st_lastCond f k) False
         \<and> js_ge (Finite (of_int (now_at orc (f_ticks f) - orElse (st_lastSentAt f k) 0))) cooldown"
  using assms
  by (auto simp: tryAlert_def Let_def delivery_fails_def split: if_splits sum.splits)

text \<open>
  The checks of one symbol in normal mode, for keys that are pairwise distinct: a key is
  sent only if the state loaded for it was not met and the cooldown had elapsed at one of
  the clock readings of these checks; an exception is a failed delivery in the last
  call made; without exception the conditions recorded are the ones passed.
\<close>

lemma try_all_normal_fired:
  assumes "try_all env orc False cooldown smb kcs f = (err, f')"
    and "distinct (map fst kcs)"
    and "k \<in> set (sentKeys f')" and "k \<notin> set (sentKeys f)"
  shows "\<not> orElse (st_lastCond f k) False
       \<and> (\<exists>n. f_ticks f \<le> n \<and> n < f_ticks f'
              \<and> js_ge (Finite (of_int (now_at orc n - orElse (st_lastSentAt f k) 0))) cooldown)"
  using assms
proof (induction kcs arbitrary: f)
  case Nil
  then show ?case by simp
next
  case (Cons kc kcs)
  obtain e1 f1 where t: "tryAlert env orc False cooldown smb (fst kc) (snd kc) f = (e1, f1)"
    by (cases "tryAlert env orc False cooldown smb (fst kc) (snd kc) f")
  note n = tryAlert_normal[OF t]
  show ?case
  proof (cases "k \<in> set (sentKeys f1)")
    case True
    have tk: "f_ticks f1 \<le> f_ticks f'"
    proof (cases e1)
      case None
      with Cons.prems(1) t have "try_all env orc False cooldown smb kcs f1 = (err, f')" by simp
      from try_all_sent[OF this] show ?thesis by blast
    next
      case (Some e)
      with Cons.prems(1) t show ?thesis by simp
    qed
    from n(5)[OF True Cons.prems(4)] n(1) tk show ?thesis
      by (intro conjI exI[of _ "f_ticks f"]) simp_all
  next
    case False
    have "e1 = None"
    proof (rule ccontr)
      assume "e1 \<noteq> None"
      then have "f' = f1" using Cons.prems(1) t by auto
      with False Cons.prems(3) show False by simp
    qed
    with Cons.prems(1) t have r: "try_all env orc False cooldown smb kcs f1 = (err, f')"
      by simp
    from try_all_sent_cond[OF r Cons.prems(3) False] have "k \<in> fst ` set kcs"
      by force
    moreover from Cons.prems(2) have "fst kc \<notin> fst ` set kcs" by simp
    ultimately have ne: "k \<noteq> fst kc" by blast
    from Cons.prems(2) have d: "distinct (map fst kcs)" by simp
    from Cons.IH[OF r d Cons.prems(3) False] n(4)[OF ne] n(1) show ?thesis
      by (metis Suc_leD)
  qed
qed

lemma try_all_normal_error:
  assumes "try_all env orc False cooldown smb kcs f = (Some e, f')"
  shows "f_ticks f < f_ticks f' \<and> delivery_fails env orc (f_ticks f' - 1)"
  using assms
proof (induction kcs arbitrary: f)
  case Nil
  then show ?case by simp
next
  case (Cons kc kcs)
  obtain e1 f1 where t: "tryAlert env orc False cooldown smb (fst kc) (snd kc) f = (e1, f1)"
    by (cases "tryAlert env orc False cooldown smb (fst kc) (snd kc) f")
  note n = tryAlert_normal[OF t]
  show ?case
  proof (cases e1)
    case None
    with Cons.prems t have "try_all env orc False cooldown smb kcs f1 = (Some e, f')" by simp
    from Cons.IH[OF this] n(1) show ?thesis by simp
  next
    case (Some e')
    with Cons.prems t have "f' = f1" by simp
    with n(1) n(2) Some show ?thesis by simp
  qed
qed

lemma try_all_normal_recorded:
  assumes "try_all env orc False cooldown smb kcs f = (None, f')"
  shows "st_lastCond f' = st_lastCond f ++ map_of (rev kcs)"
  using assms
proof (induction kcs arbitrary: f)
  case Nil
  then show ?case by simp
next
  case (Cons kc kcs)
  obtain e1 f1 where t: "tryAlert env orc False cooldown smb (fst kc) (snd kc) f = (e1, f1)"
    by (cases "tryAlert env orc False cooldown smb (fst kc) (snd kc) f")
  have e1: "e1 = None"
    using Cons.prems t by (cases e1) simp_all
  with Cons.prems t have r: "try_all env orc False cooldown smb kcs f1 = (None, f')" by simp
  have s1: "st_lastCond f1 = (st_lastCond f)(fst kc \<mapsto> snd kc)"
    using tryAlert_normal(3)[OF t e1] .
  have aux: "m(a \<mapsto> b) ++ x = m ++ ([a \<mapsto> b] ++ x)" for m :: "string \<rightharpoonup> bool" and a b x
    by (simp add: map_add_def fun_eq_iff split: option.splits)
  have "st_lastCond f' = st_lastCond f1 ++ map_of (rev kcs)"
    by (rule Cons.IH[OF r])
  also have "\<dots> = (st_lastCond f)(fst kc \<mapsto> snd kc) ++ map_of (rev kcs)"
    by (simp only: s1)
  also have "\<dots> = st_lastCond f ++ ([fst kc \<mapsto> snd kc] ++ map_of (rev kcs))"
    by (rule aux)
  also have "[fst kc \<mapsto> snd kc] ++ map_of (rev kcs) = map_of (rev (kc # kcs))"
    by (cases kc) simp
  finally show ?case .
qed

lemma check_list_distinct: "distinct (map fst (check_list rules cB cA cU cD))"
  by (simp add: check_list_def)


subsection \<open>Force mode and the stored state\<close>

lemma try_all_rel:
  assumes step: "\<And>k c f1 f2. R f1 f2 \<Longrightarrow>
      fst (tryAlert env orc frc cooldown smb k c f1) = fst (tryAlert env orc frc cooldown smb k c f2)
      \<and> R (snd (tryAlert env orc frc cooldown smb k c f1))
           (snd (tryAlert env orc frc cooldown smb k c f2))"
    and "R f1 f2"
  shows "fst (try_all env orc frc cooldown smb kcs f1) = fst (try_all env orc frc cooldown smb kcs f2)
       \<and> R (snd (try_all env orc frc cooldown smb kcs f1))
            (snd (try_all env orc frc cooldown smb kcs f2))"
  using assms(2)
proof (induction kcs arbitrary: f1 f2)
  case Nil
  then show ?case by simp
next
  case (Cons kc kcs)
  obtain e1 g1 where t1: "tryAlert env orc frc cooldown smb (fst kc) (snd kc) f1 = (e1, g1)"
    by (cases "tryAlert env orc frc cooldown smb (fst kc) (snd kc) f1")
  obtain e2 g2 where t2: "tryAlert env orc frc cooldown smb (fst kc) (snd kc) f2 = (e2, g2)"
    by (cases "tryAlert env orc frc cooldown smb (fst kc) (snd kc) f2")
  from step[OF Cons.prems, of "fst kc" "snd kc"] t1 t2 have e: "e1 = e2" and r: "R g1 g2"
    by simp_all
  show ?case
  proof (cases e1)
    case None
    with e t1 t2 Cons.IH[OF r] show ?thesis by simp
  next
    case (Some x)
    with e have "e2 = Some x" by simp
    with Some t1 t2 r show ?thesis by simp
  qed
qed

lemma tryAlert_force_effects:
  assumes "same_effects f1 f2"
  shows "fst (tryAlert env orc True cooldown smb k c f1) = fst (tryAlert env orc True cooldown smb k c f2)
       \<and> same_effects (snd (tryAlert env orc True cooldown smb k c f1))
           (snd (tryAlert env orc True cooldown smb k c f2))"
  using assms by (simp add: tryAlert_def same_effects_def Let_def split: sum.splits)

lemma tryAlert_same_state:
  assumes "same_state f1 f2"
  shows "fst (tryAlert env orc frc cooldown smb k c f1) = fst (tryAlert env orc frc cooldown smb k c f2)
       \<and> same_state (snd (tryAlert env orc frc cooldown smb k c f1))
           (snd (tryAlert env orc frc cooldown smb k c f2))"
  using assms by (simp add: tryAlert_def same_state_def Let_def split: sum.splits)

lemma alert_symbol_checks:
  assumes "snapshots smb = Some snap" and "currentPrice snap = Some price"
    and "symbol_checks env orc frc levels threshold cooldown snap price run smb = (err, f)"
  shows "alert_symbol env orc frc levels threshold cooldown snapshots run smb =
         \<lparr>run_world =
            \<lparr>store = (if frc \<or> err \<noteq> None then store (run_world run)
                       else (store (run_world run))(stateKey smb \<mapsto>
                              \<lparr>lastSentAt = Some (st_lastSentAt f),
                               lastCond = Some (st_lastCond f)\<rparr>)),
             outbox = f_outbox f, ticks = f_ticks f\<rparr>,
          run_sent = sent f,
          run_details = run_details run @
            [\<lparr>d_symbol = smb, d_sent = sentKeys f, d_currentPrice = Some price,
              d_prevClose = prevClose snap, d_changePct = changePct price (prevClose snap),
              d_rules = Some (orElse (levels smb) no_rules),
              d_note = (if err = None then None else Some ''error'')\<rparr>]\<rparr>"
  using alert_symbol_view[where snapshots = snapshots and smb = smb and levels = levels,
      OF assms(1) assms(2) refl refl assms(3)[unfolded symbol_checks_def Let_def]] .

lemma symbol_checks_force_rel:
  assumes "same_but_store r1 r2"
  shows "fst (symbol_checks env orc True levels threshold cooldown snap price r1 smb) =
         fst (symbol_checks env orc True levels threshold cooldown snap price r2 smb)
       \<and> same_effects (snd (symbol_checks env orc True levels threshold cooldown snap price r1 smb))
           (snd (symbol_checks env orc True levels threshold cooldown snap price r2 smb))"
proof -
  have r: "same_effects
      \<lparr>st_lastSentAt = fst (load_state (run_world r1) smb),
       st_lastCond = snd (load_state (run_world r1) smb), sentKeys = [],
       sent = run_sent r1, f_outbox = outbox (run_world r1), f_ticks = ticks (run_world r1)\<rparr>
      \<lparr>st_lastSentAt = fst (load_state (run_world r2) smb),
       st_lastCond = snd (load_state (run_world r2) smb), sentKeys = [],
       sent = run_sent r2, f_outbox = outbox (run_world r2), f_ticks = ticks (run_world r2)\<rparr>"
    using assms by (simp add: same_effects_def same_but_store_def)
  show ?thesis
    unfolding symbol_checks_def Let_def checks_try_all
    by (rule try_all_rel[where R = same_effects, OF tryAlert_force_effects r])
qed

lemma alert_symbol_force_rel:
  assumes "same_but_store r1 r2"
  shows "same_but_store (alert_symbol env orc True levels threshold cooldown snapshots r1 smb)
           (alert_symbol env orc True levels threshold cooldown snapshots r2 smb)"
proof (cases "snapshots smb")
  case None
  with assms show ?thesis by (simp add: alert_symbol_def same_but_store_def)
next
  case (Some snap)
  note snap = this
  show ?thesis
  proof (cases "currentPrice snap")
    case None
    with snap assms show ?thesis by (simp add: alert_symbol_def same_but_store_def)
  next
    case (Some price)
    obtain e1 f1 where c1:
      "symbol_checks env orc True levels threshold cooldown snap price r1 smb = (e1, f1)"
      by (cases "symbol_checks env orc True levels threshold cooldown snap price r1 smb")
    obtain e2 f2 where c2:
      "symbol_checks env orc True levels threshold cooldown snap price r2 smb = (e2, f2)"
      by (cases "symbol_checks env orc True levels threshold cooldown snap price r2 smb")
    from symbol_checks_force_rel[OF assms, of env orc levels threshold cooldown snap price smb] c1 c2
    have "e1 = e2" "same_effects f1 f2" by simp_all
    then show ?thesis
      using assms
      unfolding alert_symbol_checks[where snapshots = snapshots and smb = smb, OF snap Some c1]
        alert_symbol_checks[where snapshots = snapshots and smb = smb, OF snap Some c2]
      by (simp add: same_but_store_def same_effects_def)
  qed
qed

lemma foldl_force_rel:
  assumes "same_but_store r1 r2"
  shows "same_but_store
           (foldl (alert_symbol env orc True levels threshold cooldown snapshots) r1 syms)
           (foldl (alert_symbol env orc True levels threshold cooldown snapshots) r2 syms)"
  using assms by (induction syms arbitrary: r1 r2) (simp_all add: alert_symbol_force_rel)

text \<open>
  C9. In force mode the stored state does not influence what is sent: two force-mode
  runs on worlds that differ only in the contents of the State Store return the same
  summary (the same details with the same keys sent, the same count) and deliver the
  same notifications.
\<close>

theorem force_ignores_store:
  "fst (runAlertsOnce env (opts\<lparr>force := True\<rparr>) orc snapshots (w\<lparr>store := st1\<rparr>)) =
   fst (runAlertsOnce env (opts\<lparr>force := True\<rparr>) orc snapshots (w\<lparr>store := st2\<rparr>))
   \<and> outbox (snd (runAlertsOnce env (opts\<lparr>force := True\<rparr>) orc snapshots (w\<lparr>store := st1\<rparr>))) =
     outbox (snd (runAlertsOnce env (opts\<lparr>force := True\<rparr>) orc snapshots (w\<lparr>store := st2\<rparr>)))"
proof -
  have "same_but_store \<lparr>run_world = w\<lparr>store := st1\<rparr>, run_sent = 0, run_details = []\<rparr>
          \<lparr>run_world = w\<lparr>store := st2\<rparr>, run_sent = 0, run_details = []\<rparr>"
    by (simp add: same_but_store_def)
  from foldl_force_rel[OF this, of env orc "priceLevels env" "pctThreshold env" "cooldownMs env"
      snapshots "select_symbols env (opts\<lparr>force := True\<rparr>)"]
  show ?thesis
    by (simp add: runAlertsOnce_def Let_def same_but_store_def)
qed


subsection \<open>Evaluation cycles\<close>

lemma map_of_rev_distinct: "distinct (map fst xs) \<Longrightarrow> map_of (rev xs) = map_of xs"
  by (simp add: map_of_inject_set rev_map[symmetric])

lemma cycle_alert_symbol:
  "cycle orc w c =
   run_world (alert_symbol (c_env c) orc (\<not> is_normal c) (priceLevels (c_env c))
                (pctThreshold (c_env c)) (cooldownMs (c_env c)) (c_snapshots c)
                \<lparr>run_world = w, run_sent = 0, run_details = []\<rparr> (c_symbol c))"
proof (cases "c_entry c")
  case Scheduled
  then show ?thesis
    using cron_symbol_alert_symbol[where run = "\<lparr>run_world = w, run_sent = 0, run_details = []\<rparr>"]
    by (simp add: cycle_def is_normal_def Let_def)
next
  case (OnDemand frc)
  then show ?thesis by (simp add: cycle_def is_normal_def Let_def)
qed

lemma cycle_cases:
  obtains (skipped) "cycle orc w c = w" and "\<And>k. cond_of c k = None"
  | (ran) kcs err f where "distinct (map fst kcs)" and "\<And>k. cond_of c k = map_of kcs k"
      and "try_all (c_env c) orc (\<not> is_normal c) (cooldownMs (c_env c)) (c_symbol c) kcs
             \<lparr>st_lastSentAt = fst (load_state w (c_symbol c)),
              st_lastCond = snd (load_state w (c_symbol c)), sentKeys = [], sent = 0,
              f_outbox = outbox w, f_ticks = ticks w\<rparr> = (err, f)"
      and "cycle orc w c =
             \<lparr>store = (if \<not> is_normal c \<or> err \<noteq> None then store w
                        else (store w)(stateKey (c_symbol c) \<mapsto>
                               \<lparr>lastSentAt = Some (st_lastSentAt f),
                                lastCond = Some (st_lastCond f)\<rparr>)),
              outbox = f_outbox f, ticks = f_ticks f\<rparr>"
proof (cases "c_snapshots c (c_symbol c)")
  case None
  have "cycle orc w c = w"
    using None by (simp add: cycle_alert_symbol alert_symbol_def)
  moreover have "cond_of c k = None" for k
    by (simp add: cond_of_def None)
  ultimately show ?thesis by (rule skipped)
next
  case (Some snap)
  note snap = this
  show ?thesis
  proof (cases "currentPrice snap")
    case None
    have "cycle orc w c = w"
      using snap None by (simp add: cycle_alert_symbol alert_symbol_def)
    moreover have "cond_of c k = None" for k
      by (simp add: cond_of_def snap None)
    ultimately show ?thesis by (rule skipped)
  next
    case (Some price)
    define rules where "rules = orElse (priceLevels (c_env c) (c_symbol c)) no_rules"
    define chg where "chg = changePct price (prevClose snap)"
    define kcs where "kcs = check_list rules (condPriceBelow rules price) (condPriceAbove rules price)
                        (condPctUp chg (pctThreshold (c_env c)))
                        (condPctDown chg (pctThreshold (c_env c)))"
    define f0 where "f0 = \<lparr>st_lastSentAt = fst (load_state w (c_symbol c)),
              st_lastCond = snd (load_state w (c_symbol c)), sentKeys = [], sent = 0,
              f_outbox = outbox w, f_ticks = ticks w\<rparr>"
    obtain err f where t: "try_all (c_env c) orc (\<not> is_normal c) (cooldownMs (c_env c))
                             (c_symbol c) kcs f0 = (err, f)"
      by (cases "try_all (c_env c) orc (\<not> is_normal c) (cooldownMs (c_env c))
                             (c_symbol c) kcs f0")
    have c: "checks (c_env c) orc (\<not> is_normal c) (cooldownMs (c_env c)) (c_symbol c) rules
           (condPriceBelow rules price) (condPriceAbove rules price)
           (condPctUp chg (pctThreshold (c_env c))) (condPctDown chg (pctThreshold (c_env c)))
           \<lparr>st_lastSentAt = fst (load_state (run_world \<lparr>run_world = w, run_sent = 0, run_details = []\<rparr>) (c_symbol c)),
            st_lastCond = snd (load_state (run_world \<lparr>run_world = w, run_sent = 0, run_details = []\<rparr>) (c_symbol c)),
            sentKeys = [],
            sent = run_sent \<lparr>run_world = w, run_sent = 0, run_details = []\<rparr>,
            f_outbox = outbox (run_world \<lparr>run_world = w, run_sent = 0, run_details = []\<rparr>),
            f_ticks = ticks (run_world \<lparr>run_world = w, run_sent = 0, run_details = []\<rparr>)\<rparr> = (err, f)"
      using t by (simp add: checks_try_all kcs_def f0_def)
    note v = alert_symbol_view[where snapshots = "c_snapshots c" and smb = "c_symbol c"
        and levels = "priceLevels (c_env c)", OF snap Some rules_def chg_def c]
    have "distinct (map fst kcs)"
      by (simp add: kcs_def check_list_distinct)
    moreover have "cond_of c k = map_of kcs k" for k
      by (simp add: cond_of_def snap Some kcs_def rules_def chg_def Let_def)
    moreover note t[unfolded f0_def]
    moreover have "cycle orc w c =
             \<lparr>store = (if \<not> is_normal c \<or> err \<noteq> None then store w
                        else (store w)(stateKey (c_symbol c) \<mapsto>
                               \<lparr>lastSentAt = Some (st_lastSentAt f),
                                lastCond = Some (st_lastCond f)\<rparr>)),
              outbox = f_outbox f, ticks = f_ticks f\<rparr>"
      unfolding cycle_alert_symbol v by simp
    ultimately show ?thesis by (rule ran)
  qed
qed

text \<open>
  The notifications of a cycle are for its symbol and for conditions it computed true;
  in normal mode the condition was moreover not met in the stored state and the
  cooldown had elapsed at a clock reading of the cycle.
\<close>

lemma cycle_posts:
  "\<exists>ks. new_posts w (cycle orc w c) = map (Pair (c_symbol c)) ks
       \<and> outbox (cycle orc w c) = outbox w @ map (Pair (c_symbol c)) ks
       \<and> ticks w \<le> ticks (cycle orc w c)
       \<and> (\<forall>k \<in> set ks. cond_of c k = Some True)
       \<and> (is_normal c \<longrightarrow>
            (\<forall>k \<in> set ks. \<not> wasMet w (c_symbol c) k
               \<and> (\<exists>n. ticks w \<le> n \<and> n < ticks (cycle orc w c)
                      \<and> js_ge (Finite (of_int (now_at orc n - lastFiredAt w (c_symbol c) k)))
                           (cooldownMs (c_env c)))))"
proof (cases rule: cycle_cases[of orc w c])
  case skipped
  then show ?thesis
    by (intro exI[of _ "[]"]) (simp add: new_posts_def)
next
  case (ran kcs err f)
  from try_all_sent[OF ran(3)] obtain ks where ks:
    "sentKeys f = ks" "f_outbox f = outbox w @ map (Pair (c_symbol c)) ks" "ticks w \<le> f_ticks f"
    by auto
  have "cond_of c k = Some True" if "k \<in> set ks" for k
  proof -
    from try_all_sent_cond[OF ran(3), of k] that ks(1) have "(k, True) \<in> set kcs" by simp
    with ran(1) show ?thesis by (simp add: ran(2))
  qed
  moreover have "\<not> wasMet w (c_symbol c) k
               \<and> (\<exists>n. ticks w \<le> n \<and> n < ticks (cycle orc w c)
                      \<and> js_ge (Finite (of_int (now_at orc n - lastFiredAt w (c_symbol c) k)))
                           (cooldownMs (c_env c)))"
    if "is_normal c" "k \<in> set ks" for k
  proof -
    from that(1) ran(3) have "try_all (c_env c) orc False (cooldownMs (c_env c)) (c_symbol c) kcs
             \<lparr>st_lastSentAt = fst (load_state w (c_symbol c)),
              st_lastCond = snd (load_state w (c_symbol c)), sentKeys = [], sent = 0,
              f_outbox = outbox w, f_ticks = ticks w\<rparr> = (err, f)"
      by simp
    from try_all_normal_fired[OF this ran(1), of k] that(2) ks(1)
    show ?thesis by (simp add: wasMet_def lastFiredAt_def ran(4))
  qed
  ultimately show ?thesis
    using ks by (intro exI[of _ ks]) (simp add: new_posts_def ran(4))
qed

lemma cycle_store_other:
  assumes "key \<noteq> stateKey (c_symbol c)"
  shows "store (cycle orc w c) key = store w key"
  by (cases rule: cycle_cases[of orc w c]) (use assms in simp_all)

lemma cycle_store_force:
  assumes "\<not> is_normal c"
  shows "store (cycle orc w c) = store w"
  by (cases rule: cycle_cases[of orc w c]) (use assms in simp_all)

lemma load_state_cong:
  "store w' (stateKey s) = store w (stateKey s) \<Longrightarrow> load_state w' s = load_state w s"
  by (simp add: load_state_def)

text \<open>
  A stored \<open>wasMet = true\<close> survives every cycle but a normal cycle of the same symbol
  that computes the condition false.
\<close>

lemma cycle_wasMet_kept:
  assumes "wasMet w s k"
    and "\<not> (is_normal c \<and> c_symbol c = s \<and> cond_of c k = Some False)"
  shows "wasMet (cycle orc w c) s k"
proof (cases "is_normal c \<and> c_symbol c = s")
  case False
  then have "store (cycle orc w c) (stateKey s) = store w (stateKey s)"
    using cycle_store_force[of c orc w] cycle_store_other[of "stateKey s" c orc w] by auto
  from load_state_cong[OF this] assms(1) show ?thesis by (simp add: wasMet_def)
next
  case True
  then have n: "is_normal c" and s: "c_symbol c = s" by simp_all
  show ?thesis
  proof (cases rule: cycle_cases[of orc w c])
    case skipped
    with assms(1) show ?thesis by simp
  next
    case (ran kcs err f)
    show ?thesis
    proof (cases err)
      case (Some e)
      then have "store (cycle orc w c) = store w" by (simp add: ran(4))
      then have "load_state (cycle orc w c) s = load_state w s" by (simp add: load_state_def)
      with assms(1) show ?thesis by (simp add: wasMet_def)
    next
      case None
      with n ran(3) have "try_all (c_env c) orc False (cooldownMs (c_env c)) (c_symbol c) kcs
             \<lparr>st_lastSentAt = fst (load_state w (c_symbol c)),
              st_lastCond = snd (load_state w (c_symbol c)), sentKeys = [], sent = 0,
              f_outbox = outbox w, f_ticks = ticks w\<rparr> = (None, f)"
        by simp
      from try_all_normal_recorded[OF this]
      have rec: "st_lastCond f = snd (load_state w s) ++ map_of (rev kcs)"
        by (simp add: s)
      have m: "map_of (rev kcs) k = map_of kcs k"
        using ran(1) by (simp add: map_of_rev_distinct)
      have "cond_of c k \<noteq> Some False"
        using assms(2) n s by simp
      then have "map_of kcs k = None \<or> map_of kcs k = Some True"
        by (cases "map_of kcs k") (simp_all add: ran(2))
      then have "orElse (st_lastCond f k) False"
        using assms(1) by (auto simp: rec m map_add_def wasMet_def orElse_def)
      moreover have "snd (load_state (cycle orc w c) s) = st_lastCond f"
        using None n s by (simp add: ran(4) load_state_def orElse_def)
      ultimately show ?thesis by (simp add: wasMet_def)
    qed
  qed
qed

text \<open>
  A normal cycle that computes the condition true and in which no delivery fails
  stores \<open>wasMet = true\<close>. The calls of \<open>tryAlert\<close> of a cycle from \<open>w\<close> are
  those numbered from \<open>ticks w\<close> up to, and excluding, the \<open>ticks\<close> of its result.
\<close>

lemma cycle_wasMet_set:
  assumes "is_normal c" and "cond_of c k = Some True"
    and "\<forall>n. ticks w \<le> n \<and> n < ticks (cycle orc w c) \<longrightarrow> \<not> delivery_fails (c_env c) orc n"
  shows "wasMet (cycle orc w c) (c_symbol c) k"
proof (cases rule: cycle_cases[of orc w c])
  case skipped
  with assms(2) show ?thesis by simp
next
  case (ran kcs err f)
  from assms(1) ran(3) have t: "try_all (c_env c) orc False (cooldownMs (c_env c)) (c_symbol c) kcs
         \<lparr>st_lastSentAt = fst (load_state w (c_symbol c)),
          st_lastCond = snd (load_state w (c_symbol c)), sentKeys = [], sent = 0,
          f_outbox = outbox w, f_ticks = ticks w\<rparr> = (err, f)"
    by simp
  have e: "err = None"
  proof (cases err)
    case (Some e)
    from try_all_normal_error[OF t[unfolded Some]]
    have "ticks w \<le> f_ticks f - 1" "f_ticks f - 1 < ticks (cycle orc w c)"
      "delivery_fails (c_env c) orc (f_ticks f - 1)"
      by (auto simp: ran(4))
    with assms(3) show ?thesis by blast
  qed simp
  from try_all_normal_recorded[OF t[unfolded e]]
  have rec: "st_lastCond f = snd (load_state w (c_symbol c)) ++ map_of (rev kcs)"
    by simp
  have m: "map_of (rev kcs) k = Some True"
    using ran(1) assms(2) by (simp add: map_of_rev_distinct ran(2))
  have "snd (load_state (cycle orc w c) (c_symbol c)) = st_lastCond f"
    using e assms(1) by (simp add: ran(4) load_state_def orElse_def)
  then show ?thesis
    by (simp add: wasMet_def rec m orElse_def)
qed


lemma cycles_Cons: "cycles orc w (c # cs) = cycles orc (cycle orc w c) cs"
  by (simp add: cycles_def)

lemma cycles_snoc: "cycles orc w (cs @ [c]) = cycle orc (cycles orc w cs) c"
  by (simp add: cycles_def)

lemma cycles_wasMet_kept:
  assumes "wasMet w s k"
    and "\<forall>c \<in> set cs. \<not> (is_normal c \<and> c_symbol c = s \<and> cond_of c k = Some False)"
  shows "wasMet (cycles orc w cs) s k"
  using assms
proof (induction cs arbitrary: w)
  case Nil
  then show ?case by (simp add: cycles_def)
next
  case (Cons c cs)
  from Cons.prems have "wasMet (cycle orc w c) s k"
    by (intro cycle_wasMet_kept) simp_all
  with Cons.prems show ?case
    by (simp add: cycles_Cons Cons.IH)
qed

lemma cycle_no_post_when_met:
  assumes "wasMet w s k" and "is_normal c"
  shows "(s, k) \<notin> set (new_posts w (cycle orc w c))"
proof
  assume a: "(s, k) \<in> set (new_posts w (cycle orc w c))"
  from cycle_posts[of w orc c] obtain ks where ks:
    "new_posts w (cycle orc w c) = map (Pair (c_symbol c)) ks"
    "is_normal c \<longrightarrow> (\<forall>k \<in> set ks. \<not> wasMet w (c_symbol c) k)"
    by blast
  from a ks(1) have "c_symbol c = s" "k \<in> set ks" by auto
  with ks(2) assms show False by simp
qed

lemma js_lt_not_ge: "js_lt x y \<Longrightarrow> \<not> js_ge x y"
  by (cases x; cases y) (simp_all add: js_ge_def)

lemma cycle_no_post_under_cooldown:
  assumes "is_normal c"
    and "\<forall>n. ticks w \<le> n \<and> n < ticks (cycle orc w c) \<longrightarrow>
           js_lt (Finite (of_int (now_at orc n - lastFiredAt w (c_symbol c) k))) (cooldownMs (c_env c))"
  shows "(c_symbol c, k) \<notin> set (new_posts w (cycle orc w c))"
proof
  assume a: "(c_symbol c, k) \<in> set (new_posts w (cycle orc w c))"
  from cycle_posts[of w orc c] obtain ks where ks:
    "new_posts w (cycle orc w c) = map (Pair (c_symbol c)) ks"
    "is_normal c \<longrightarrow>
       (\<forall>k \<in> set ks. \<exists>n. ticks w \<le> n \<and> n < ticks (cycle orc w c)
          \<and> js_ge (Finite (of_int (now_at orc n - lastFiredAt w (c_symbol c) k))) (cooldownMs (c_env c)))"
    by blast
  from a ks(1) have "k \<in> set ks" by auto
  with ks(2) assms(1) obtain n where "ticks w \<le> n" "n < ticks (cycle orc w c)"
    "js_ge (Finite (of_int (now_at orc n - lastFiredAt w (c_symbol c) k))) (cooldownMs (c_env c))"
    by blast
  with assms(2) js_lt_not_ge show False by blast
qed


subsection \<open>Runs are sequences of cycles\<close>

lemma runCron_cycles:
  "runCron env orc snapshots w =
   cycles orc w
     (map (\<lambda>s. \<lparr>c_entry = Scheduled, c_env = env, c_snapshots = snapshots, c_symbol = s\<rparr>)
        (watchlist env))"
  by (simp add: runCron_def cycles_def foldl_map cycle_def)

lemma symbol_checks_world_rel:
  assumes "run_world r1 = run_world r2"
  shows "fst (symbol_checks env orc frc levels threshold cooldown snap price r1 smb) =
         fst (symbol_checks env orc frc levels threshold cooldown snap price r2 smb)
       \<and> same_state (snd (symbol_checks env orc frc levels threshold cooldown snap price r1 smb))
           (snd (symbol_checks env orc frc levels threshold cooldown snap price r2 smb))"
proof -
  have r: "same_state
      \<lparr>st_lastSentAt = fst (load_state (run_world r1) smb),
       st_lastCond = snd (load_state (run_world r1) smb), sentKeys = [],
       sent = run_sent r1, f_outbox = outbox (run_world r1), f_ticks = ticks (run_world r1)\<rparr>
      \<lparr>st_lastSentAt = fst (load_state (run_world r2) smb),
       st_lastCond = snd (load_state (run_world r2) smb), sentKeys = [],
       sent = run_sent r2, f_outbox = outbox (run_world r2), f_ticks = ticks (run_world r2)\<rparr>"
    using assms by (simp add: same_state_def)
  show ?thesis
    unfolding symbol_checks_def Let_def checks_try_all
    by (rule try_all_rel[where R = same_state, OF tryAlert_same_state r])
qed

lemma alert_symbol_world:
  assumes "run_world r1 = run_world r2"
  shows "run_world (alert_symbol env orc frc levels threshold cooldown snapshots r1 smb) =
         run_world (alert_symbol env orc frc levels threshold cooldown snapshots r2 smb)"
proof (cases "snapshots smb")
  case None
  with assms show ?thesis by (simp add: alert_symbol_def)
next
  case (Some snap)
  note snap = this
  show ?thesis
  proof (cases "currentPrice snap")
    case None
    with snap assms show ?thesis by (simp add: alert_symbol_def)
  next
    case (Some price)
    obtain e1 f1 where c1:
      "symbol_checks env orc frc levels threshold cooldown snap price r1 smb = (e1, f1)"
      by (cases "symbol_checks env orc frc levels threshold cooldown snap price r1 smb")
    obtain e2 f2 where c2:
      "symbol_checks env orc frc levels threshold cooldown snap price r2 smb = (e2, f2)"
      by (cases "symbol_checks env orc frc levels threshold cooldown snap price r2 smb")
    from symbol_checks_world_rel[OF assms, of env orc frc levels threshold cooldown snap price smb] c1 c2
    have "e1 = e2" "same_state f1 f2" by simp_all
    then show ?thesis
      using assms
      unfolding alert_symbol_checks[where snapshots = snapshots and smb = smb, OF snap Some c1]
        alert_symbol_checks[where snapshots = snapshots and smb = smb, OF snap Some c2]
      by (simp add: same_state_def)
  qed
qed

lemma foldl_alert_symbol_world:
  "run_world (foldl (alert_symbol env orc frc levels threshold cooldown snapshots) run syms) =
   foldl (\<lambda>w s. run_world (alert_symbol env orc frc levels threshold cooldown snapshots
                             \<lparr>run_world = w, run_sent = 0, run_details = []\<rparr> s))
     (run_world run) syms"
proof (induction syms arbitrary: run)
  case Nil
  then show ?case by simp
next
  case (Cons s syms)
  have "run_world (alert_symbol env orc frc levels threshold cooldown snapshots run s) =
        run_world (alert_symbol env orc frc levels threshold cooldown snapshots
                     \<lparr>run_world = run_world run, run_sent = 0, run_details = []\<rparr> s)"
    by (rule alert_symbol_world) simp
  then show ?case by (simp add: Cons.IH)
qed

lemma runAlertsOnce_cycles:
  "snd (runAlertsOnce env opts orc snapshots w) =
   cycles orc w
     (map (\<lambda>s. \<lparr>c_entry = OnDemand (force opts), c_env = env, c_snapshots = snapshots,
                c_symbol = s\<rparr>)
        (select_symbols env opts))"
  by (simp add: runAlertsOnce_def Let_def cycles_def foldl_map cycle_def foldl_alert_symbol_world)


subsection \<open>The concrete scenario\<close>

lemma demo_levels:
  "priceLevels demo_env = [''AAPL'' \<mapsto> \<lparr>below = Some (Finite 170), above = None\<rparr>]"
  by (simp add: priceLevels_def demo_env_def orElse_def parse_defs Number_170)

lemma demo_threshold: "pctThreshold demo_env = Finite 10"
  by (simp add: pctThreshold_def demo_env_def orElse_def Number_10)

lemma demo_cooldown: "cooldownMs demo_env = Finite 1800000"
  by (simp add: cooldownMs_def cooldownMin_def demo_env_def orElse_def Number_30)

lemma demo_watchlist: "watchlist demo_env = [''AAPL'']"
  by (simp add: watchlist_def demo_env_def orElse_def split_def toUpperCase_def upper_char_def
      trim_def is_space_def char_of_def bit_0)

lemma demo_webhook: "DISCORD_WEBHOOK_URL demo_env = Some ''https://discord.test/hook''"
  by (simp add: demo_env_def)

lemmas demo_defs =
  demo_snapshots_def demo_aapl_def demo_world_def demo_levels demo_threshold demo_cooldown demo_watchlist
  demo_webhook

lemmas eval_defs =
  currentPrice_def prevClose_def changePct_def condPriceBelow_def condPriceAbove_def
  condPctUp_def condPctDown_def js_ge_def js_gt_def js_sub_def orElse_def no_rules_def
  load_state_def stateKey_def and_then_def sendDiscord_def trim_def is_space_def Let_def

lemma demo_run1:
  "runCron demo_env failing_oracle demo_snapshots demo_world = demo_world\<lparr>ticks := 3\<rparr>"
  by (simp add: runCron_def cron_symbol_def cron_checks_def cron_tryAlert_def demo_defs
      failing_oracle_def eval_defs)

lemma demo_run2:
  "runCron demo_env failing_oracle demo_snapshots (demo_world\<lparr>ticks := 3\<rparr>) =
     \<lparr>store = [stateKey ''AAPL'' \<mapsto>
                \<lparr>lastSentAt = Some [''price_below'' \<mapsto> 20000000, ''pct_down'' \<mapsto> 20000000],
                 lastCond = Some [''price_below'' \<mapsto> True, ''pct_up'' \<mapsto> False,
                                  ''pct_down'' \<mapsto> True]\<rparr>],
      outbox = [(''AAPL'', ''price_below''), (''AAPL'', ''pct_down'')], ticks = 6\<rparr>"
  by (simp add: runCron_def cron_symbol_def cron_checks_def cron_tryAlert_def demo_defs
      failing_oracle_def eval_defs)


subsection \<open>Edge consumption under cooldown\<close>

text \<open>
  C1, as amended. In a normal cycle of a symbol in which a condition is computed true,
  was not met in the stored state, and the cooldown since the stored \<open>lastFiredAt\<close> has
  not elapsed at any clock reading of the cycle: no notification is sent for the
  (symbol, condition); if moreover no delivery fails in the cycle, the cycle stores
  \<open>wasMet = true\<close>. From any world that stores
  \<open>wasMet = true\<close>, along any sequence of cycles (of any symbols, scheduled or on demand,
  forced or not) in which no normal cycle of the symbol computes the condition false,
  \<open>wasMet\<close> stays true and no normal cycle sends a notification for the
  (symbol, condition): a notification becomes possible again only after a normal cycle
  has computed the condition false.
\<close>

theorem edge_consumed_under_cooldown:
  assumes "is_normal c0"
    and "cond_of c0 k = Some True"
    and "\<not> wasMet w (c_symbol c0) k"
    and "\<forall>n. ticks w \<le> n \<and> n < ticks (cycle orc w c0) \<longrightarrow>
           js_lt (Finite (of_int (now_at orc n - lastFiredAt w (c_symbol c0) k)))
             (cooldownMs (c_env c0))"
  shows "(c_symbol c0, k) \<notin> set (new_posts w (cycle orc w c0))
       \<and> ((\<forall>n. ticks w \<le> n \<and> n < ticks (cycle orc w c0) \<longrightarrow> \<not> delivery_fails (c_env c0) orc n)
            \<longrightarrow> wasMet (cycle orc w c0) (c_symbol c0) k)
       \<and> (\<forall>w1 cs.
             wasMet w1 (c_symbol c0) k
             \<and> (\<forall>c \<in> set cs. is_normal c \<and> c_symbol c = c_symbol c0 \<longrightarrow> cond_of c k \<noteq> Some False)
             \<longrightarrow> wasMet (cycles orc w1 cs) (c_symbol c0) k
                 \<and> (\<forall>i < length cs. is_normal (cs ! i) \<longrightarrow>
                       (c_symbol c0, k) \<notin>
                         set (new_posts (cycles orc w1 (take i cs))
                                (cycles orc w1 (take (Suc i) cs)))))"
proof (intro conjI allI impI)
  show "(c_symbol c0, k) \<notin> set (new_posts w (cycle orc w c0))"
    using assms(1) assms(4) by (rule cycle_no_post_under_cooldown)
next
  assume "\<forall>n. ticks w \<le> n \<and> n < ticks (cycle orc w c0) \<longrightarrow> \<not> delivery_fails (c_env c0) orc n"
  with assms(1) assms(2) show "wasMet (cycle orc w c0) (c_symbol c0) k"
    by (rule cycle_wasMet_set)
next
  fix w1 cs
  assume a: "wasMet w1 (c_symbol c0) k
             \<and> (\<forall>c \<in> set cs. is_normal c \<and> c_symbol c = c_symbol c0 \<longrightarrow> cond_of c k \<noteq> Some False)"
  then have ok: "\<forall>c \<in> set cs. \<not> (is_normal c \<and> c_symbol c = c_symbol c0 \<and> cond_of c k = Some False)"
    by blast
  from a ok show "wasMet (cycles orc w1 cs) (c_symbol c0) k"
    by (intro cycles_wasMet_kept) simp_all
  fix i
  assume i: "i < length cs" and n: "is_normal (cs ! i)"
  have "\<forall>c \<in> set (take i cs). \<not> (is_normal c \<and> c_symbol c = c_symbol c0 \<and> cond_of c k = Some False)"
    using ok by (meson in_set_takeD)
  with a have m: "wasMet (cycles orc w1 (take i cs)) (c_symbol c0) k"
    by (intro cycles_wasMet_kept) simp_all
  have "cycles orc w1 (take (Suc i) cs) = cycle orc (cycles orc w1 (take i cs)) (cs ! i)"
    using i by (simp add: take_Suc_conv_app_nth cycles_snoc)
  then show "(c_symbol c0, k) \<notin>
               set (new_posts (cycles orc w1 (take i cs)) (cycles orc w1 (take (Suc i) cs)))"
    using cycle_no_post_when_met[OF m n] by simp
qed

lemma demo_cond: "cond_of demo_cycle ''price_below'' = Some True"
  by (simp add: cond_of_def demo_cycle_def demo_defs check_list_def eval_defs)

lemma demo_not_met: "\<not> wasMet demo_world ''AAPL'' ''price_below''"
  by (simp add: wasMet_def demo_defs eval_defs)

lemma demo_last: "lastFiredAt demo_world ''AAPL'' ''price_below'' = 9000000"
  by (simp add: lastFiredAt_def demo_defs eval_defs)

lemma demo_cycle_simps:
  "is_normal demo_cycle" "c_symbol demo_cycle = ''AAPL''" "c_env demo_cycle = demo_env"
  by (simp_all add: demo_cycle_def is_normal_def)

lemma demo_cycle_runCron:
  "cycle orc w demo_cycle = runCron demo_env orc demo_snapshots w"
  by (simp add: runCron_cycles demo_watchlist cycles_def demo_cycle_def)

lemma demo_steady:
  "cycle steady_oracle demo_world demo_cycle =
     \<lparr>store = [stateKey ''AAPL'' \<mapsto>
                \<lparr>lastSentAt = Some [''price_below'' \<mapsto> 9000000, ''pct_down'' \<mapsto> 10000000],
                 lastCond = Some [''price_below'' \<mapsto> True, ''pct_up'' \<mapsto> False,
                                  ''pct_down'' \<mapsto> True]\<rparr>],
      outbox = [(''AAPL'', ''pct_down'')], ticks = 3\<rparr>"
  unfolding demo_cycle_runCron
  by (simp add: runCron_def cron_symbol_def cron_checks_def cron_tryAlert_def demo_defs
      steady_oracle_def eval_defs)

theorem edge_consumed_under_cooldown_witness:
  "is_normal demo_cycle
   \<and> cond_of demo_cycle ''price_below'' = Some True
   \<and> \<not> wasMet demo_world ''AAPL'' ''price_below''
   \<and> js_lt (Finite (of_int (now_at steady_oracle 0 - lastFiredAt demo_world ''AAPL'' ''price_below'')))
        (cooldownMs demo_env)
   \<and> (''AAPL'', ''price_below'') \<notin> set (new_posts demo_world (cycle steady_oracle demo_world demo_cycle))
   \<and> wasMet (cycle steady_oracle demo_world demo_cycle) ''AAPL'' ''price_below''
   \<and> (''AAPL'', ''price_below'') \<notin>
       set (new_posts (cycle steady_oracle demo_world demo_cycle)
              (cycles steady_oracle (cycle steady_oracle demo_world demo_cycle) [demo_cycle]))"
proof -
  have h4: "\<forall>n. ticks demo_world \<le> n \<and> n < ticks (cycle steady_oracle demo_world demo_cycle) \<longrightarrow>
           js_lt (Finite (of_int (now_at steady_oracle n
                    - lastFiredAt demo_world (c_symbol demo_cycle) ''price_below'')))
             (cooldownMs (c_env demo_cycle))"
    by (simp add: demo_cycle_simps demo_last demo_cooldown steady_oracle_def)
  have h3: "\<not> wasMet demo_world (c_symbol demo_cycle) ''price_below''"
    by (simp add: demo_cycle_simps demo_not_met)
  note t = edge_consumed_under_cooldown[OF demo_cycle_simps(1) demo_cond h3 h4, unfolded demo_cycle_simps]
  have ok: "\<forall>n. ticks demo_world \<le> n \<and> n < ticks (cycle steady_oracle demo_world demo_cycle)
              \<longrightarrow> \<not> delivery_fails demo_env steady_oracle n"
    by (simp add: delivery_fails_def demo_webhook steady_oracle_def sendDiscord_def trim_def
        is_space_def)
  from t ok have met: "wasMet (cycle steady_oracle demo_world demo_cycle) ''AAPL'' ''price_below''"
    by blast
  from t have later: "wasMet (cycle steady_oracle demo_world demo_cycle) ''AAPL'' ''price_below''
      \<and> (\<forall>c \<in> set [demo_cycle]. is_normal c \<and> c_symbol c = ''AAPL'' \<longrightarrow>
             cond_of c ''price_below'' \<noteq> Some False)
      \<longrightarrow> (\<forall>i < length [demo_cycle]. is_normal ([demo_cycle] ! i) \<longrightarrow>
             (''AAPL'', ''price_below'') \<notin>
               set (new_posts (cycles steady_oracle (cycle steady_oracle demo_world demo_cycle)
                                 (take i [demo_cycle]))
                      (cycles steady_oracle (cycle steady_oracle demo_world demo_cycle)
                                 (take (Suc i) [demo_cycle]))))"
    by blast
  have "(''AAPL'', ''price_below'') \<notin>
       set (new_posts (cycle steady_oracle demo_world demo_cycle)
              (cycles steady_oracle (cycle steady_oracle demo_world demo_cycle) [demo_cycle]))"
    using later met by (simp add: demo_cond demo_cycle_simps cycles_def)
  with t met show ?thesis
    by (simp add: demo_cycle_simps demo_cond demo_not_met demo_last demo_cooldown steady_oracle_def)
qed

text \<open>
  The claim as stated fails when the delivery for a later condition of the same symbol
  fails in the cycle of the suppressed edge. First scheduled run: \<open>price_below\<close> rises
  while its cooldown has not elapsed, so nothing is sent for it; then the delivery for
  \<open>pct_down\<close> fails and the state of the symbol is not stored, so \<open>wasMet\<close> is not set.
  Second scheduled run, after the cooldown, on the same snapshot: \<open>price_below\<close> is
  still true, was never computed false, and its notification is sent.
\<close>

theorem edge_consumed_counterexample:
  "is_normal demo_cycle
   \<and> cond_of demo_cycle ''price_below'' = Some True
   \<and> \<not> wasMet demo_world ''AAPL'' ''price_below''
   \<and> js_lt (Finite (of_int (now_at failing_oracle 0 - lastFiredAt demo_world ''AAPL'' ''price_below'')))
        (cooldownMs demo_env)
   \<and> new_posts demo_world (runCron demo_env failing_oracle demo_snapshots demo_world) = []
   \<and> \<not> wasMet (runCron demo_env failing_oracle demo_snapshots demo_world) ''AAPL'' ''price_below''
   \<and> (''AAPL'', ''price_below'') \<in>
       set (new_posts (runCron demo_env failing_oracle demo_snapshots demo_world)
              (runCron demo_env failing_oracle demo_snapshots
                 (runCron demo_env failing_oracle demo_snapshots demo_world)))"
proof -
  have a: "js_lt (Finite (of_int (now_at failing_oracle 0
              - lastFiredAt demo_world ''AAPL'' ''price_below''))) (cooldownMs demo_env)"
    by (simp add: demo_last demo_cooldown failing_oracle_def)
  have b: "\<not> wasMet (demo_world\<lparr>ticks := 3\<rparr>) ''AAPL'' ''price_below''"
    by (simp add: wasMet_def demo_world_def eval_defs)
  have c: "outbox (demo_world\<lparr>ticks := 3\<rparr>) = []" "outbox demo_world = []"
    by (simp_all add: demo_world_def)
  show ?thesis
    unfolding demo_run1 demo_run2 using a b
    by (simp add: demo_cycle_simps demo_cond demo_not_met new_posts_def c)
qed


subsection \<open>Exclusive percent conditions\<close>

lemma cond_of_pct:
  assumes "cond_of c ''pct_up'' = Some True" and "cond_of c ''pct_down'' = Some True"
  shows "\<exists>chg. condPctUp chg (pctThreshold (c_env c)) \<and> condPctDown chg (pctThreshold (c_env c))"
  using assms
  by (auto simp: cond_of_def check_list_def Let_def split: option.splits if_splits)

text \<open>
  C8. With a percent threshold greater than zero the conditions \<open>pct_up\<close> and
  \<open>pct_down\<close> are never both true, and no cycle, scheduled or on demand, forced or not,
  delivers both a \<open>pct_up\<close> and a \<open>pct_down\<close> notification for a symbol.
\<close>

theorem pct_conditions_exclusive:
  assumes "js_gt threshold (Finite 0)"
  shows "\<not> (condPctUp chg threshold \<and> condPctDown chg threshold)
       \<and> (pctThreshold (c_env c) = threshold \<longrightarrow>
            \<not> ((s, ''pct_up'') \<in> set (new_posts w (cycle orc w c))
               \<and> (s, ''pct_down'') \<in> set (new_posts w (cycle orc w c))))"
proof (intro conjI impI)
  show "\<not> (condPctUp chg threshold \<and> condPctDown chg threshold)"
    using assms by (rule pct_not_both)
next
  assume t: "pctThreshold (c_env c) = threshold"
  show "\<not> ((s, ''pct_up'') \<in> set (new_posts w (cycle orc w c))
               \<and> (s, ''pct_down'') \<in> set (new_posts w (cycle orc w c)))"
  proof
    assume a: "(s, ''pct_up'') \<in> set (new_posts w (cycle orc w c))
               \<and> (s, ''pct_down'') \<in> set (new_posts w (cycle orc w c))"
    from cycle_posts[of w orc c] obtain ks where ks:
      "new_posts w (cycle orc w c) = map (Pair (c_symbol c)) ks"
      "\<forall>k \<in> set ks. cond_of c k = Some True"
      by blast
    from a ks(1) have "''pct_up'' \<in> set ks" "''pct_down'' \<in> set ks" by auto
    with ks(2) have "cond_of c ''pct_up'' = Some True" "cond_of c ''pct_down'' = Some True"
      by simp_all
    from cond_of_pct[OF this] t pct_not_both[OF assms] show False by blast
  qed
qed

theorem pct_conditions_exclusive_witness:
  "js_gt (Finite 10) (Finite 0)
   \<and> \<not> (condPctUp (Some (Finite 12)) (Finite 10) \<and> condPctDown (Some (Finite 12)) (Finite 10))
   \<and> pctThreshold (c_env demo_cycle) = Finite 10
   \<and> \<not> ((''AAPL'', ''pct_up'') \<in> set (new_posts demo_world (cycle steady_oracle demo_world demo_cycle))
        \<and> (''AAPL'', ''pct_down'') \<in> set (new_posts demo_world (cycle steady_oracle demo_world demo_cycle)))"
proof -
  have h: "js_gt (Finite 10) (Finite 0)" by (simp add: js_gt_def)
  have t: "pctThreshold (c_env demo_cycle) = Finite 10"
    by (simp add: demo_cycle_simps demo_threshold)
  from pct_conditions_exclusive[OF h, of "Some (Finite 12)" demo_cycle "''AAPL''" demo_world
      steady_oracle] h t
  show ?thesis by blast
qed


subsection \<open>Failure of a delivery\<close>






end
